theory Spec2Isabelle
  imports Main
begin

section \<open>Localization (src/localization.ts)\<close>

text \<open>
  The class \<open>Localization\<close> has two private fields: \<open>languages\<close>, a
  \<open>Map<string, Map<string, string>>\<close>, and \<open>activeLanguage\<close>, a
  \<open>string | undefined\<close>. A JavaScript \<open>Map\<close> is a finite partial function; the
  value \<open>undefined\<close> is \<open>None\<close>.
\<close>

type_synonym Language = "string \<rightharpoonup> string"

record Localization =
  languages :: "string \<rightharpoonup> Language"
  activeLanguage :: "string option"

definition Localization_new :: Localization where
  "Localization_new = \<lparr>languages = Map.empty, activeLanguage = None\<rparr>"

text \<open>
  \<open>load(language, data)\<close>. The argument \<open>data\<close> is a plain object; it is given
  here by its enumerable entries in enumeration order. The loop
  \<open>for (const key in data) map.set(key, data[key])\<close> stores each entry in a
  fresh map.
\<close>

definition load_map :: "(string \<times> string) list \<Rightarrow> Language" where
  "load_map data = fold (\<lambda>(key, v) m. m(key \<mapsto> v)) data Map.empty"

definition load :: "string \<Rightarrow> (string \<times> string) list \<Rightarrow> Localization \<Rightarrow> Localization" where
  "load language data l =
     (let m = load_map data;
          l1 = l\<lparr>languages := (languages l)(language \<mapsto> m)\<rparr>
      in if activeLanguage l1 = None then l1\<lparr>activeLanguage := Some language\<rparr> else l1)"

text \<open>
  The setter \<open>active\<close> throws when its argument is falsy (\<open>undefined\<close> or the
  empty string) or names a language that is not loaded.
\<close>

datatype loc_error = NoLanguageLoaded "string option"

definition set_active :: "string option \<Rightarrow> Localization \<Rightarrow> loc_error + Localization" where
  "set_active lang l =
     (case lang of
        None \<Rightarrow> Inl (NoLanguageLoaded lang)
      | Some lg \<Rightarrow>
          if lg = [] \<or> languages l lg = None then Inl (NoLanguageLoaded lang)
          else Inr (l\<lparr>activeLanguage := lang\<rparr>))"

text \<open>
  \<open>get(id, language?)\<close>. \<open>language ?? this.activeLanguage\<close> takes the argument
  unless it is \<open>undefined\<close>; \<open>!lang\<close> holds for \<open>undefined\<close> and for the empty
  string; \<open>this.languages.get(lang)?.get(id)\<close> is \<open>undefined\<close> when either lookup
  finds nothing.
\<close>

definition selected :: "string option \<Rightarrow> Localization \<Rightarrow> string option" where
  "selected language l = (case language of Some lg \<Rightarrow> Some lg | None \<Rightarrow> activeLanguage l)"

definition lookup :: "Localization \<Rightarrow> string \<Rightarrow> string \<Rightarrow> string option" where
  "lookup l lang ident = (case languages l lang of None \<Rightarrow> None | Some tbl \<Rightarrow> tbl ident)"

definition get :: "string \<Rightarrow> string option \<Rightarrow> Localization \<Rightarrow> string option" where
  "get ident language l =
     (case selected language l of
        None \<Rightarrow> None
      | Some lang \<Rightarrow> if lang = [] then None else lookup l lang ident)"


section \<open>The embed-script parser (generated from the grammar)\<close>

text \<open>
  The parser is the function \<open>peg$parse\<close>: a recursive-descent parser with
  backtracking whose state is a handful of variables local to one call
  (\<open>peg$currPos\<close>, \<open>peg$savedPos\<close>, \<open>peg$posDetailsCache\<close>,
  \<open>peg$maxFailPos\<close>, \<open>peg$maxFailExpected\<close>). Each rule function returns a
  value or the token \<open>peg$FAILED\<close> and updates the state; here each is a function
  from the state to a result and the new state.

  Strings are lists of 8-bit characters; every character the grammar tests is
  ASCII. \<open>peg$silentFails\<close> is initialised to 0 and never assigned, so the test
  \<open>peg$silentFails === 0\<close> in front of every call of \<open>peg$fail\<close> is always true
  and is left out. \<open>options.startRule\<close> is taken to be absent (the start rule is
  \<open>Source\<close>). The error's \<open>message\<close> is a function of its \<open>expected\<close> and
  \<open>found\<close> fields (\<open>buildMessage\<close>) and is not part of the model.
\<close>

datatype Expectation =
    LiteralExp string bool
  | ClassExp string bool bool
  | AnyExp
  | EndExp
  | OtherExp string

record FilePosition =
  offset :: nat
  line :: nat
  column :: nat

record FileRange =
  start :: FilePosition
  finish :: FilePosition

record SyntaxError =
  expected :: "Expectation list"
  found :: "char option"
  location :: FileRange

datatype SequenceType = Stopping | Shuffle | Cycle | OnlyOnce

text \<open>
  The value of the optional \<open>type\<close> of an embed: \<open>{type: ...}\<close> from rule
  \<open>Type\<close>, or \<open>{expr: ..., text: ...}\<close> from rule \<open>Condition\<close>.
\<close>

datatype EmbedType = SequenceEmbedType SequenceType | ExprEmbedType string string

record Argument =
  arg_expr :: "string option"
  arg_value :: "string option"
  arg_full :: string
  arg_location :: FileRange

type_synonym PosDetails = "nat \<times> nat"

text \<open>
  The parser state. \<open>failLog\<close> is a history variable that is not in the source:
  it records every call of \<open>peg$fail\<close> with the position it was made at, and
  nothing reads it. \<open>host\<close> is the state outside the parser that
  \<open>processEmbed\<close> may read and change through \<open>options\<close>.
\<close>

record 's pstate =
  currPos :: nat
  savedPos :: nat
  posDetailsCache :: "nat \<rightharpoonup> PosDetails"
  maxFailPos :: nat
  maxFailExpected :: "Expectation list"
  failLog :: "(nat \<times> Expectation) list"
  host :: 's

text \<open>
  A rule returns \<open>peg$FAILED\<close> or a value. It may also not return: when
  \<open>processEmbed\<close> throws (\<open>Thrown\<close>); when the rule functions, which call each other
  with no test of the depth, have used up the call stack of the JavaScript engine,
  which then throws a \<open>RangeError\<close> that nothing in the parser catches
  (\<open>StackOverflow\<close>); when a loop of the source would run forever (\<open>NoReturn\<close>); or
  when the bound that the model puts on the rounds of a loop is used up
  (\<open>OutOfFuel\<close>).
\<close>

datatype 'x abort = OutOfFuel | NoReturn | StackOverflow | Thrown 'x

datatype ('a, 'x) res = FAILED | OK 'a | ABORT "'x abort"

type_synonym ('a, 'x, 's) rule = "'s pstate \<Rightarrow> ('a, 'x) res \<times> 's pstate"

text \<open>
  \<open>processEmbed(type, args, multiline, options, expected)\<close> is imported from
  \<open>./inline_util\<close> and is a parameter of the model: it gets the type, the
  arguments, the flag and the host state, and returns a string or throws.
\<close>

type_synonym ('x, 's) processEmbed =
  "EmbedType option \<Rightarrow> Argument list \<Rightarrow> bool \<Rightarrow> 's \<Rightarrow> ('x + string) \<times> 's"

definition peg_c2 :: Expectation where "peg_c2 = LiteralExp ''{'' False"
definition peg_c4 :: Expectation where "peg_c4 = LiteralExp ''}'' False"
definition peg_c6 :: "char \<Rightarrow> bool" where
  "peg_c6 c = (c = CHR '' '' \<or> c = CHR 0x09 \<or> c = CHR 0x0A \<or> c = CHR 0x0D)"
definition peg_c7 :: Expectation where
  "peg_c7 = ClassExp [CHR '' '', CHR 0x09, CHR 0x0A, CHR 0x0D] False False"
definition peg_c10 :: Expectation where "peg_c10 = LiteralExp [CHR 0x0D] False"
definition peg_c12 :: Expectation where "peg_c12 = LiteralExp [CHR 0x0A] False"
definition peg_c15 :: Expectation where "peg_c15 = LiteralExp ''stopping:'' False"
definition peg_c18 :: Expectation where "peg_c18 = LiteralExp ''~'' False"
definition peg_c20 :: Expectation where "peg_c20 = LiteralExp ''shuffle:'' False"
definition peg_c23 :: Expectation where "peg_c23 = LiteralExp ''&'' False"
definition peg_c25 :: Expectation where "peg_c25 = LiteralExp ''cycle:'' False"
definition peg_c28 :: Expectation where "peg_c28 = LiteralExp ''!'' False"
definition peg_c30 :: Expectation where "peg_c30 = LiteralExp ''once:'' False"
definition peg_c33 :: Expectation where "peg_c33 = LiteralExp '':'' False"
definition peg_c35 :: "char \<Rightarrow> bool" where
  "peg_c35 c = (\<not> (c = CHR 0x0A \<or> c = CHR ''|'' \<or> c = CHR '':'' \<or> c = CHR ''{'' \<or> c = CHR ''}''))"
definition peg_c36 :: Expectation where
  "peg_c36 = ClassExp [CHR 0x0A, CHR ''|'', CHR '':'', CHR ''{'', CHR ''}''] True False"
definition peg_c40 :: Expectation where "peg_c40 = LiteralExp ''|'' False"
definition peg_c44 :: Expectation where "peg_c44 = LiteralExp ''-'' False"
definition peg_c46 :: "char \<Rightarrow> bool" where
  "peg_c46 c = (\<not> (c = CHR ''{'' \<or> c = CHR ''}'' \<or> c = CHR ''-''))"
definition peg_c47 :: Expectation where
  "peg_c47 = ClassExp [CHR ''{'', CHR ''}'', CHR ''-''] True False"
definition peg_c49 :: "char \<Rightarrow> bool" where
  "peg_c49 c = (\<not> (c = CHR ''{'' \<or> c = CHR ''}'' \<or> c = CHR ''|'' \<or> c = CHR 0x0D \<or> c = CHR 0x0A))"
definition peg_c50 :: Expectation where
  "peg_c50 = ClassExp [CHR ''{'', CHR ''}'', CHR ''|'', CHR 0x0D, CHR 0x0A] True False"
definition peg_c51 :: "char \<Rightarrow> bool" where
  "peg_c51 c = (\<not> (c = CHR ''{'' \<or> c = CHR ''}''))"
definition peg_c52 :: Expectation where
  "peg_c52 = ClassExp [CHR ''{'', CHR ''}''] True False"

subsection \<open>Positions and locations\<close>

text \<open>
  \<open>peg$computePosDetails(pos)\<close>: the sparse array \<open>peg$posDetailsCache\<close> is a
  partial map. The loop \<open>while (!peg$posDetailsCache[p]) p--\<close> ends at the nearest
  entry at or below \<open>p\<close>; were there none, it would not end.
\<close>

fun prev_cached :: "(nat \<rightharpoonup> PosDetails) \<Rightarrow> nat \<Rightarrow> (nat \<times> PosDetails) option" where
  "prev_cached cache 0 = (case cache 0 of Some d \<Rightarrow> Some (0, d) | None \<Rightarrow> None)"
| "prev_cached cache (Suc p) =
     (case cache (Suc p) of Some d \<Rightarrow> Some (Suc p, d) | None \<Rightarrow> prev_cached cache p)"

text \<open>
  The loop \<open>while (p < pos)\<close>, on the copy \<open>(line, column)\<close> of the cached
  details. \<open>input.charCodeAt(p)\<close> is \<open>NaN\<close> beyond the end of the input.
\<close>

function walk :: "string \<Rightarrow> nat \<Rightarrow> nat \<Rightarrow> PosDetails \<Rightarrow> PosDetails" where
  "walk input p pos details =
     (if p < pos
      then walk input (p + 1) pos
             (if p < length input \<and> input ! p = CHR 0x0A
              then (fst details + 1, 1)
              else (fst details, snd details + 1))
      else details)"
  by pat_completeness auto
termination
  by (relation "measure (\<lambda>(input, p, pos, details). pos - p)") auto

declare walk.simps [simp del]

definition computePosDetails ::
  "string \<Rightarrow> nat \<Rightarrow> (nat \<rightharpoonup> PosDetails) \<Rightarrow> (PosDetails \<times> (nat \<rightharpoonup> PosDetails)) option" where
  "computePosDetails input pos cache =
     (case cache pos of
        Some details \<Rightarrow> Some (details, cache)
      | None \<Rightarrow>
          (case pos of
             0 \<Rightarrow> None
           | Suc q \<Rightarrow>
               (case prev_cached cache q of
                  None \<Rightarrow> None
                | Some (p, d) \<Rightarrow>
                    (let details = walk input p pos d
                     in Some (details, cache(pos \<mapsto> details))))))"

definition computeLocation ::
  "string \<Rightarrow> nat \<Rightarrow> nat \<Rightarrow> (nat \<rightharpoonup> PosDetails) \<Rightarrow> (FileRange \<times> (nat \<rightharpoonup> PosDetails)) option" where
  "computeLocation input startPos endPos cache =
     (case computePosDetails input startPos cache of
        None \<Rightarrow> None
      | Some (startPosDetails, cache1) \<Rightarrow>
          (case computePosDetails input endPos cache1 of
             None \<Rightarrow> None
           | Some (endPosDetails, cache2) \<Rightarrow>
               Some (\<lparr>start = \<lparr>offset = startPos, line = fst startPosDetails,
                                column = snd startPosDetails\<rparr>,
                      finish = \<lparr>offset = endPos, line = fst endPosDetails,
                                 column = snd endPosDetails\<rparr>\<rparr>, cache2)))"

text \<open>\<open>text()\<close> and \<open>location()\<close>, as the actions call them.\<close>

definition substring :: "string \<Rightarrow> nat \<Rightarrow> nat \<Rightarrow> string" where
  "substring input a b = take (b - a) (drop a input)"

definition text_of :: "string \<Rightarrow> 's pstate \<Rightarrow> string" where
  "text_of input st = substring input (savedPos st) (currPos st)"

definition location_of :: "string \<Rightarrow> 's pstate \<Rightarrow> (FileRange \<times> 's pstate) option" where
  "location_of input st =
     (case computeLocation input (savedPos st) (currPos st) (posDetailsCache st) of
        None \<Rightarrow> None
      | Some (r, cache) \<Rightarrow> Some (r, st\<lparr>posDetailsCache := cache\<rparr>))"

subsection \<open>Failure tracking and the matching steps\<close>

definition peg_fail :: "Expectation \<Rightarrow> 's pstate \<Rightarrow> 's pstate" where
  "peg_fail expected1 st =
     (let st0 = st\<lparr>failLog := failLog st @ [(currPos st, expected1)]\<rparr>
      in if currPos st0 < maxFailPos st0 then st0
         else (let st1 = (if currPos st0 > maxFailPos st0
                          then st0\<lparr>maxFailPos := currPos st0, maxFailExpected := []\<rparr>
                          else st0)
               in st1\<lparr>maxFailExpected := maxFailExpected st1 @ [expected1]\<rparr>))"

text \<open>
  The three matching steps of the generated code: one character
  (\<open>input.charCodeAt(peg$currPos) === n\<close>), a literal
  (\<open>input.substr(peg$currPos, n) === lit\<close>) and a character class
  (\<open>re.test(input.charAt(peg$currPos))\<close>, false at the end of the input). Each
  advances on a match and calls \<open>peg$fail\<close> otherwise.
\<close>

definition match_char :: "char \<Rightarrow> Expectation \<Rightarrow> string \<Rightarrow> 's pstate \<Rightarrow> bool \<times> 's pstate" where
  "match_char c e input st =
     (if currPos st < length input \<and> input ! currPos st = c
      then (True, st\<lparr>currPos := currPos st + 1\<rparr>)
      else (False, peg_fail e st))"

definition match_str :: "string \<Rightarrow> Expectation \<Rightarrow> string \<Rightarrow> 's pstate \<Rightarrow> bool \<times> 's pstate" where
  "match_str lit e input st =
     (if take (length lit) (drop (currPos st) input) = lit
      then (True, st\<lparr>currPos := currPos st + length lit\<rparr>)
      else (False, peg_fail e st))"

definition match_class :: "(char \<Rightarrow> bool) \<Rightarrow> Expectation \<Rightarrow> string \<Rightarrow> 's pstate \<Rightarrow> bool \<times> 's pstate" where
  "match_class cls e input st =
     (if currPos st < length input \<and> cls (input ! currPos st)
      then (True, st\<lparr>currPos := currPos st + 1\<rparr>)
      else (False, peg_fail e st))"

text \<open>
  The loop \<open>while (s2 !== peg$FAILED) { s1.push(s2); s2 = <match class>; }\<close>
  entered after a match: it matches until the class fails.
\<close>

function class_loop :: "(char \<Rightarrow> bool) \<Rightarrow> Expectation \<Rightarrow> string \<Rightarrow> 's pstate \<Rightarrow> 's pstate" where
  "class_loop cls e input st =
     (case match_class cls e input st of
        (True, st1) \<Rightarrow> class_loop cls e input st1
      | (False, st1) \<Rightarrow> st1)"
  by pat_completeness auto
termination
  by (relation "measure (\<lambda>(cls, e, input, st). length input - currPos st)")
     (auto simp: match_class_def split: if_splits)

declare class_loop.simps [simp del]

subsection \<open>The rules without recursion\<close>

definition parseWhitespace :: "string \<Rightarrow> (unit, 'x, 's) rule" where
  "parseWhitespace input st =
     (let s0 = currPos st;
          st1 = class_loop peg_c6 peg_c7 input st
      in (OK (), st1\<lparr>savedPos := s0\<rparr>))"

definition parseNewline :: "string \<Rightarrow> (unit, 'x, 's) rule" where
  "parseNewline input st =
     (let s0 = currPos st in
      case match_char (CHR 0x0D) peg_c10 input st of
        (_, st1) \<Rightarrow>
          (case match_char (CHR 0x0A) peg_c12 input st1 of
             (True, st2) \<Rightarrow> (OK (), st2\<lparr>savedPos := s0\<rparr>)
           | (False, st2) \<Rightarrow> (FAILED, st2\<lparr>currPos := s0\<rparr>)))"

definition parseStopping_Id :: "string \<Rightarrow> (EmbedType, 'x, 's) rule" where
  "parseStopping_Id input st =
     (let s0 = currPos st in
      case match_str ''stopping:'' peg_c15 input st of
        (True, st1) \<Rightarrow> (OK (SequenceEmbedType Stopping), st1\<lparr>savedPos := s0\<rparr>)
      | (False, st1) \<Rightarrow> (FAILED, st1))"

definition parseShuffle_Id :: "string \<Rightarrow> (EmbedType, 'x, 's) rule" where
  "parseShuffle_Id input st =
     (let s0 = currPos st in
      case match_char (CHR ''~'') peg_c18 input st of
        (True, st1) \<Rightarrow> (OK (SequenceEmbedType Shuffle), st1\<lparr>savedPos := s0\<rparr>)
      | (False, st1) \<Rightarrow>
          (case match_str ''shuffle:'' peg_c20 input st1 of
             (True, st2) \<Rightarrow> (OK (SequenceEmbedType Shuffle), st2\<lparr>savedPos := s0\<rparr>)
           | (False, st2) \<Rightarrow> (FAILED, st2)))"

definition parseCycle_Id :: "string \<Rightarrow> (EmbedType, 'x, 's) rule" where
  "parseCycle_Id input st =
     (let s0 = currPos st in
      case match_char (CHR ''&'') peg_c23 input st of
        (True, st1) \<Rightarrow> (OK (SequenceEmbedType Cycle), st1\<lparr>savedPos := s0\<rparr>)
      | (False, st1) \<Rightarrow>
          (case match_str ''cycle:'' peg_c25 input st1 of
             (True, st2) \<Rightarrow> (OK (SequenceEmbedType Cycle), st2\<lparr>savedPos := s0\<rparr>)
           | (False, st2) \<Rightarrow> (FAILED, st2)))"

definition parseOnce_Only_Id :: "string \<Rightarrow> (EmbedType, 'x, 's) rule" where
  "parseOnce_Only_Id input st =
     (let s0 = currPos st in
      case match_char (CHR ''!'') peg_c28 input st of
        (True, st1) \<Rightarrow> (OK (SequenceEmbedType OnlyOnce), st1\<lparr>savedPos := s0\<rparr>)
      | (False, st1) \<Rightarrow>
          (case match_str ''once:'' peg_c30 input st1 of
             (True, st2) \<Rightarrow> (OK (SequenceEmbedType OnlyOnce), st2\<lparr>savedPos := s0\<rparr>)
           | (False, st2) \<Rightarrow> (FAILED, st2)))"

text \<open>An ordered choice: the second rule runs where the first returned \<open>peg$FAILED\<close>.\<close>

definition orElse :: "('a, 'x, 's) rule \<Rightarrow> ('a, 'x, 's) rule \<Rightarrow> ('a, 'x, 's) rule" where
  "orElse p q st = (case p st of (FAILED, st1) \<Rightarrow> q st1 | (r, st1) \<Rightarrow> (r, st1))"

definition parseType :: "string \<Rightarrow> (EmbedType, 'x, 's) rule" where
  "parseType input =
     orElse (parseStopping_Id input)
       (orElse (parseShuffle_Id input)
          (orElse (parseCycle_Id input) (parseOnce_Only_Id input)))"

definition parseExpression :: "string \<Rightarrow> (string, 'x, 's) rule" where
  "parseExpression input st =
     (let s0 = currPos st in
      case match_class peg_c35 peg_c36 input st of
        (False, st1) \<Rightarrow> (FAILED, st1)
      | (True, st1) \<Rightarrow>
          (let st2 = class_loop peg_c35 peg_c36 input st1;
               st3 = st2\<lparr>savedPos := s0\<rparr>
           in (OK (text_of input st3), st3)))"

definition parseCondition :: "string \<Rightarrow> (EmbedType, 'x, 's) rule" where
  "parseCondition input st =
     (let s0 = currPos st in
      case parseExpression input st of
        (OK s1, st1) \<Rightarrow>
          (case match_char (CHR '':'') peg_c33 input st1 of
             (True, st2) \<Rightarrow>
               (case parseWhitespace input st2 of
                  (OK _, st3) \<Rightarrow>
                    (let st4 = st3\<lparr>savedPos := s0\<rparr>
                     in (OK (ExprEmbedType s1 (text_of input st4)), st4))
                | (FAILED, st3) \<Rightarrow> (FAILED, st3\<lparr>currPos := s0\<rparr>)
                | (ABORT a, st3) \<Rightarrow> (ABORT a, st3))
           | (False, st2) \<Rightarrow> (FAILED, st2\<lparr>currPos := s0\<rparr>))
      | (FAILED, st1) \<Rightarrow> (FAILED, st1\<lparr>currPos := s0\<rparr>)
      | (ABORT a, st1) \<Rightarrow> (ABORT a, st1))"

text \<open>
  \<open>String.prototype.trim\<close> removes white space and line terminators at both
  ends; among the 8-bit characters these are U+0009 to U+000D, U+0020 and U+00A0.
\<close>

definition js_space :: "char \<Rightarrow> bool" where
  "js_space c = (c = CHR 0x09 \<or> c = CHR 0x0A \<or> c = CHR 0x0B \<or> c = CHR 0x0C \<or> c = CHR 0x0D
                 \<or> c = CHR 0x20 \<or> c = CHR 0xA0)"

definition trim :: "string \<Rightarrow> string" where
  "trim s = rev (dropWhile js_space (rev (dropWhile js_space s)))"

text \<open>
  The three text rules: one or more characters of a class; the action is
  \<open>text()\<close> (\<open>peg$c37\<close>) or \<open>text().trim()\<close> (\<open>peg$c48\<close>).
\<close>

definition parseInlineMultilineText :: "string \<Rightarrow> (string, 'x, 's) rule" where
  "parseInlineMultilineText input st =
     (let s0 = currPos st in
      case match_class peg_c46 peg_c47 input st of
        (False, st1) \<Rightarrow> (FAILED, st1)
      | (True, st1) \<Rightarrow>
          (let st2 = class_loop peg_c46 peg_c47 input st1;
               st3 = st2\<lparr>savedPos := s0\<rparr>
           in (OK (trim (text_of input st3)), st3)))"

definition parseInlineText :: "string \<Rightarrow> (string, 'x, 's) rule" where
  "parseInlineText input st =
     (let s0 = currPos st in
      case match_class peg_c49 peg_c50 input st of
        (False, st1) \<Rightarrow> (FAILED, st1)
      | (True, st1) \<Rightarrow>
          (let st2 = class_loop peg_c49 peg_c50 input st1;
               st3 = st2\<lparr>savedPos := s0\<rparr>
           in (OK (text_of input st3), st3)))"

definition parseText :: "string \<Rightarrow> (string, 'x, 's) rule" where
  "parseText input st =
     (let s0 = currPos st in
      case match_class peg_c51 peg_c52 input st of
        (False, st1) \<Rightarrow> (FAILED, st1)
      | (True, st1) \<Rightarrow>
          (let st2 = class_loop peg_c51 peg_c52 input st1;
               st3 = st2\<lparr>savedPos := s0\<rparr>
           in (OK (text_of input st3), st3)))"

subsection \<open>The rules that contain embeds\<close>

text \<open>
  The rules \<open>Source\<close>, \<open>Embed\<close>, \<open>Arguments\<close> and their kin call each other.
  Each rule below takes the rule \<open>Embed\<close> as the parameter \<open>emb\<close>;
  \<open>parseEmbed\<close> closes the recursion.

  The source has no bound on the recursion: \<open>peg$parseEmbed\<close> calls
  \<open>peg$parseInlineEmbed\<close>, that calls \<open>peg$parseArguments\<close>, \<open>peg$parseArgument\<close>,
  \<open>peg$parseInlineSource\<close> and through it \<open>peg$parseEmbed\<close> again, one nest of
  JavaScript calls for each level of braces, until the engine's call stack is
  used up. The size of that stack is not fixed by the language, so it is a
  parameter: \<open>parseEmbed stack\<close> is \<open>peg$parseEmbed\<close> called where the stack has room
  for \<open>stack\<close> nested calls of \<open>peg$parseEmbed\<close> (each with the calls it makes
  before the next one), and with no room left the call ends in
  \<open>StackOverflow\<close>.

  The \<open>while\<close> loops over rule calls use no stack. The model bounds their rounds
  by a number \<open>fuel\<close>; \<open>parseEmbed\<close> and \<open>parseSource\<close> give every loop more fuel
  than the input has characters, which is never used up (section
  ``Termination of the parser'').

  \<open>many fuel item st s1\<close> is the loop
  \<open>s2 = item(); while (s2 !== peg$FAILED) { s1.push(s2); s2 = item(); }\<close>.
\<close>

primrec many :: "nat \<Rightarrow> ('a, 'x, 's) rule \<Rightarrow> 's pstate \<Rightarrow> 'a list \<Rightarrow> ('a list, 'x) res \<times> 's pstate" where
  "many 0 item st s1 = (ABORT OutOfFuel, st)"
| "many (Suc fuel) item st s1 =
     (case item st of
        (OK s2, st1) \<Rightarrow> many fuel item st1 (s1 @ [s2])
      | (FAILED, st1) \<Rightarrow> (OK s1, st1)
      | (ABORT a, st1) \<Rightarrow> (ABORT a, st1))"

text \<open>\<open>peg$c0\<close>: \<open>contents.join('')\<close>.\<close>

definition peg_c0 :: "string list \<Rightarrow> string" where
  "peg_c0 contents = concat contents"

definition parseInlineSource :: "nat \<Rightarrow> (string, 'x, 's) rule \<Rightarrow> string \<Rightarrow> (string, 'x, 's) rule" where
  "parseInlineSource fuel emb input st =
     (let s0 = currPos st in
      case orElse (parseInlineText input) emb st of
        (OK s2, st1) \<Rightarrow>
          (case many fuel (orElse (parseInlineText input) emb) st1 [s2] of
             (OK s1, st2) \<Rightarrow> (OK (peg_c0 s1), st2\<lparr>savedPos := s0\<rparr>)
           | (FAILED, st2) \<Rightarrow> (FAILED, st2)
           | (ABORT a, st2) \<Rightarrow> (ABORT a, st2))
      | (FAILED, st1) \<Rightarrow> (FAILED, st1)
      | (ABORT a, st1) \<Rightarrow> (ABORT a, st1))"

definition parseInlineMultilineSource :: "nat \<Rightarrow> (string, 'x, 's) rule \<Rightarrow> string \<Rightarrow> (string, 'x, 's) rule" where
  "parseInlineMultilineSource fuel emb input st =
     (let s0 = currPos st in
      case orElse (parseInlineMultilineText input) emb st of
        (OK s2, st1) \<Rightarrow>
          (case many fuel (orElse (parseInlineMultilineText input) emb) st1 [s2] of
             (OK s1, st2) \<Rightarrow> (OK (peg_c0 s1), st2\<lparr>savedPos := s0\<rparr>)
           | (FAILED, st2) \<Rightarrow> (FAILED, st2)
           | (ABORT a, st2) \<Rightarrow> (ABORT a, st2))
      | (FAILED, st1) \<Rightarrow> (FAILED, st1)
      | (ABORT a, st1) \<Rightarrow> (ABORT a, st1))"

text \<open>
  \<open>peg$c38\<close>: \<open>{ full: arg ?? '', location: location() }\<close>, and \<open>peg$c42\<close>, the
  action of \<open>MultilineArgument\<close>.
\<close>

definition peg_c38 :: "string \<Rightarrow> string option \<Rightarrow> (Argument, 'x, 's) rule" where
  "peg_c38 input arg st =
     (case location_of input st of
        None \<Rightarrow> (ABORT NoReturn, st)
      | Some (loc, st1) \<Rightarrow>
          (OK \<lparr>arg_expr = None, arg_value = None,
               arg_full = (case arg of Some a \<Rightarrow> a | None \<Rightarrow> []),
               arg_location = loc\<rparr>, st1))"

definition peg_c42 :: "string \<Rightarrow> EmbedType option \<Rightarrow> string option \<Rightarrow> (Argument, 'x, 's) rule" where
  "peg_c42 input cond val st =
     (case location_of input st of
        None \<Rightarrow> (ABORT NoReturn, st)
      | Some (loc, st1) \<Rightarrow>
          (let v = (case val of Some a \<Rightarrow> a | None \<Rightarrow> []) in
           case cond of
             Some (ExprEmbedType e t) \<Rightarrow>
               (OK \<lparr>arg_expr = Some e, arg_value = Some v, arg_full = t @ v,
                    arg_location = loc\<rparr>, st1)
           | _ \<Rightarrow>
               (OK \<lparr>arg_expr = None, arg_value = None, arg_full = v,
                    arg_location = loc\<rparr>, st1)))"

definition parseArgument :: "nat \<Rightarrow> (string, 'x, 's) rule \<Rightarrow> string \<Rightarrow> (Argument, 'x, 's) rule" where
  "parseArgument fuel emb input st =
     (let s0 = currPos st in
      case parseInlineSource fuel emb input st of
        (OK s1, st1) \<Rightarrow> peg_c38 input (Some s1) (st1\<lparr>savedPos := s0\<rparr>)
      | (FAILED, st1) \<Rightarrow> peg_c38 input None (st1\<lparr>savedPos := s0\<rparr>)
      | (ABORT a, st1) \<Rightarrow> (ABORT a, st1))"

text \<open>One round \<open>'|' Argument\<close> of the loop of \<open>Arguments\<close>.\<close>

definition pipeArgument :: "nat \<Rightarrow> (string, 'x, 's) rule \<Rightarrow> string \<Rightarrow> (Argument, 'x, 's) rule" where
  "pipeArgument fuel emb input st =
     (let s3 = currPos st in
      case match_char (CHR ''|'') peg_c40 input st of
        (True, st1) \<Rightarrow>
          (case parseArgument fuel emb input st1 of
             (OK s5, st2) \<Rightarrow> (OK s5, st2)
           | (FAILED, st2) \<Rightarrow> (FAILED, st2\<lparr>currPos := s3\<rparr>)
           | (ABORT a, st2) \<Rightarrow> (ABORT a, st2))
      | (False, st1) \<Rightarrow> (FAILED, st1\<lparr>currPos := s3\<rparr>))"

definition parseArguments :: "nat \<Rightarrow> (string, 'x, 's) rule \<Rightarrow> string \<Rightarrow> (Argument list, 'x, 's) rule" where
  "parseArguments fuel emb input st =
     (let s0 = currPos st in
      case parseArgument fuel emb input st of
        (OK s1, st1) \<Rightarrow>
          (case many fuel (pipeArgument fuel emb input) st1 [] of
             (OK s2, st2) \<Rightarrow> (OK (s1 # s2), st2\<lparr>savedPos := s0\<rparr>)
           | (FAILED, st2) \<Rightarrow> (FAILED, st2\<lparr>currPos := s0\<rparr>)
           | (ABORT a, st2) \<Rightarrow> (ABORT a, st2))
      | (FAILED, st1) \<Rightarrow> (FAILED, st1\<lparr>currPos := s0\<rparr>)
      | (ABORT a, st1) \<Rightarrow> (ABORT a, st1))"

text \<open>The optional \<open>(Condition / Type)?\<close> and \<open>Type?\<close>: \<open>null\<close> is \<open>None\<close>.\<close>

definition optional :: "('a, 'x, 's) rule \<Rightarrow> ('a option, 'x, 's) rule" where
  "optional p st =
     (case p st of
        (OK v, st1) \<Rightarrow> (OK (Some v), st1)
      | (FAILED, st1) \<Rightarrow> (OK None, st1)
      | (ABORT a, st1) \<Rightarrow> (ABORT a, st1))"

text \<open>The call of \<open>processEmbed\<close> in the actions \<open>peg$c5\<close> and \<open>peg$c13\<close>.\<close>

definition call_processEmbed ::
  "('x, 's) processEmbed \<Rightarrow> EmbedType option \<Rightarrow> Argument list \<Rightarrow> bool \<Rightarrow> (string, 'x, 's) rule" where
  "call_processEmbed processEmbed type args multiline st =
     (case processEmbed type args multiline (host st) of
        (Inr v, h) \<Rightarrow> (OK v, st\<lparr>host := h\<rparr>)
      | (Inl x, h) \<Rightarrow> (ABORT (Thrown x), st\<lparr>host := h\<rparr>))"

definition parseInlineEmbed ::
  "nat \<Rightarrow> ('x, 's) processEmbed \<Rightarrow> (string, 'x, 's) rule \<Rightarrow> string \<Rightarrow> (string, 'x, 's) rule" where
  "parseInlineEmbed fuel processEmbed emb input st =
     (let s0 = currPos st in
      case match_char (CHR ''{'') peg_c2 input st of
        (True, st1) \<Rightarrow>
          (case optional (orElse (parseCondition input) (parseType input)) st1 of
             (OK s2, st2) \<Rightarrow>
               (case parseArguments fuel emb input st2 of
                  (OK s3, st3) \<Rightarrow>
                    (case match_char (CHR ''}'') peg_c4 input st3 of
                       (True, st4) \<Rightarrow>
                         call_processEmbed processEmbed s2 s3 False (st4\<lparr>savedPos := s0\<rparr>)
                     | (False, st4) \<Rightarrow> (FAILED, st4\<lparr>currPos := s0\<rparr>))
                | (FAILED, st3) \<Rightarrow> (FAILED, st3\<lparr>currPos := s0\<rparr>)
                | (ABORT a, st3) \<Rightarrow> (ABORT a, st3))
           | (FAILED, st2) \<Rightarrow> (FAILED, st2\<lparr>currPos := s0\<rparr>)
           | (ABORT a, st2) \<Rightarrow> (ABORT a, st2))
      | (False, st1) \<Rightarrow> (FAILED, st1\<lparr>currPos := s0\<rparr>))"

definition parseMultilineArgument :: "nat \<Rightarrow> (string, 'x, 's) rule \<Rightarrow> string \<Rightarrow> (Argument, 'x, 's) rule" where
  "parseMultilineArgument fuel emb input st =
     (let s0 = currPos st in
      case optional (parseCondition input) st of
        (OK s1, st1) \<Rightarrow>
          (case optional (parseInlineMultilineSource fuel emb input) st1 of
             (OK s2, st2) \<Rightarrow> peg_c42 input s1 s2 (st2\<lparr>savedPos := s0\<rparr>)
           | (FAILED, st2) \<Rightarrow> (FAILED, st2\<lparr>currPos := s0\<rparr>)
           | (ABORT a, st2) \<Rightarrow> (ABORT a, st2))
      | (FAILED, st1) \<Rightarrow> (FAILED, st1\<lparr>currPos := s0\<rparr>)
      | (ABORT a, st1) \<Rightarrow> (ABORT a, st1))"

text \<open>
  One round \<open>'-' Whitespace MultilineArgument Whitespace\<close> of the loop of
  \<open>MultiLineArguments\<close>; the action \<open>peg$c45\<close> keeps the third component.
\<close>

definition dashArgument :: "nat \<Rightarrow> (string, 'x, 's) rule \<Rightarrow> string \<Rightarrow> (Argument, 'x, 's) rule" where
  "dashArgument fuel emb input st =
     (let s3 = currPos st in
      case match_char (CHR ''-'') peg_c44 input st of
        (True, st1) \<Rightarrow>
          (case parseWhitespace input st1 of
             (OK _, st2) \<Rightarrow>
               (case parseMultilineArgument fuel emb input st2 of
                  (OK s6, st3) \<Rightarrow>
                    (case parseWhitespace input st3 of
                       (OK _, st4) \<Rightarrow> (OK s6, st4)
                     | (FAILED, st4) \<Rightarrow> (FAILED, st4\<lparr>currPos := s3\<rparr>)
                     | (ABORT a, st4) \<Rightarrow> (ABORT a, st4))
                | (FAILED, st3) \<Rightarrow> (FAILED, st3\<lparr>currPos := s3\<rparr>)
                | (ABORT a, st3) \<Rightarrow> (ABORT a, st3))
           | (FAILED, st2) \<Rightarrow> (FAILED, st2\<lparr>currPos := s3\<rparr>)
           | (ABORT a, st2) \<Rightarrow> (ABORT a, st2))
      | (False, st1) \<Rightarrow> (FAILED, st1\<lparr>currPos := s3\<rparr>))"

definition parseMultiLineArguments :: "nat \<Rightarrow> (string, 'x, 's) rule \<Rightarrow> string \<Rightarrow> (Argument list, 'x, 's) rule" where
  "parseMultiLineArguments fuel emb input st =
     (let s0 = currPos st in
      case parseWhitespace input st of
        (OK _, st1) \<Rightarrow>
          (case dashArgument fuel emb input st1 of
             (OK s3, st2) \<Rightarrow>
               (case many fuel (dashArgument fuel emb input) st2 [s3] of
                  (OK s2, st3) \<Rightarrow> (OK s2, st3\<lparr>savedPos := s0\<rparr>)
                | (FAILED, st3) \<Rightarrow> (FAILED, st3\<lparr>currPos := s0\<rparr>)
                | (ABORT a, st3) \<Rightarrow> (ABORT a, st3))
           | (FAILED, st2) \<Rightarrow> (FAILED, st2\<lparr>currPos := s0\<rparr>)
           | (ABORT a, st2) \<Rightarrow> (ABORT a, st2))
      | (FAILED, st1) \<Rightarrow> (FAILED, st1\<lparr>currPos := s0\<rparr>)
      | (ABORT a, st1) \<Rightarrow> (ABORT a, st1))"

definition parseMutliLineEmbed ::
  "nat \<Rightarrow> ('x, 's) processEmbed \<Rightarrow> (string, 'x, 's) rule \<Rightarrow> string \<Rightarrow> (string, 'x, 's) rule" where
  "parseMutliLineEmbed fuel processEmbed emb input st =
     (let s0 = currPos st in
      case match_char (CHR ''{'') peg_c2 input st of
        (True, st1) \<Rightarrow>
          (case optional (parseType input) st1 of
             (OK s2, st2) \<Rightarrow>
               (case parseNewline input st2 of
                  (OK _, st3) \<Rightarrow>
                    (case parseMultiLineArguments fuel emb input st3 of
                       (OK s4, st4) \<Rightarrow>
                         (case match_char (CHR ''}'') peg_c4 input st4 of
                            (True, st5) \<Rightarrow>
                              call_processEmbed processEmbed s2 s4 True (st5\<lparr>savedPos := s0\<rparr>)
                          | (False, st5) \<Rightarrow> (FAILED, st5\<lparr>currPos := s0\<rparr>))
                     | (FAILED, st4) \<Rightarrow> (FAILED, st4\<lparr>currPos := s0\<rparr>)
                     | (ABORT a, st4) \<Rightarrow> (ABORT a, st4))
                | (FAILED, st3) \<Rightarrow> (FAILED, st3\<lparr>currPos := s0\<rparr>)
                | (ABORT a, st3) \<Rightarrow> (ABORT a, st3))
           | (FAILED, st2) \<Rightarrow> (FAILED, st2\<lparr>currPos := s0\<rparr>)
           | (ABORT a, st2) \<Rightarrow> (ABORT a, st2))
      | (False, st1) \<Rightarrow> (FAILED, st1\<lparr>currPos := s0\<rparr>))"

primrec parseEmbed :: "nat \<Rightarrow> ('x, 's) processEmbed \<Rightarrow> string \<Rightarrow> (string, 'x, 's) rule" where
  "parseEmbed 0 processEmbed input = (\<lambda>st. (ABORT StackOverflow, st))"
| "parseEmbed (Suc stack) processEmbed input =
     orElse (parseInlineEmbed (Suc (length input)) processEmbed
               (parseEmbed stack processEmbed input) input)
            (parseMutliLineEmbed (Suc (length input)) processEmbed
               (parseEmbed stack processEmbed input) input)"

definition parseSource :: "nat \<Rightarrow> ('x, 's) processEmbed \<Rightarrow> string \<Rightarrow> (string, 'x, 's) rule" where
  "parseSource stack processEmbed input st =
     (let s0 = currPos st in
      case many (Suc (length input))
             (orElse (parseText input) (parseEmbed stack processEmbed input)) st [] of
        (OK s1, st1) \<Rightarrow> (OK (peg_c0 s1), st1\<lparr>savedPos := s0\<rparr>)
      | (FAILED, st1) \<Rightarrow> (FAILED, st1)
      | (ABORT a, st1) \<Rightarrow> (ABORT a, st1))"

subsection \<open>The entry point\<close>

datatype 'x outcome = Returns string | Raises SyntaxError | Aborts "'x abort"

definition initial_state :: "'s \<Rightarrow> 's pstate" where
  "initial_state h =
     \<lparr>currPos = 0, savedPos = 0, posDetailsCache = [0 \<mapsto> (1, 1)],
      maxFailPos = 0, maxFailExpected = [], failLog = [], host = h\<rparr>"

text \<open>
  The last statement of \<open>peg$parse\<close>: \<open>throw peg$buildStructuredError(...)\<close> with
  the expectations, the character found and the location of \<open>peg$maxFailPos\<close>.
\<close>

definition raise_failure :: "string \<Rightarrow> 's pstate \<Rightarrow> 'x outcome \<times> 's pstate" where
  "raise_failure input st =
     (let found1 = (if maxFailPos st < length input then Some (input ! maxFailPos st) else None);
          endPos = (if maxFailPos st < length input then maxFailPos st + 1 else maxFailPos st)
      in case computeLocation input (maxFailPos st) endPos (posDetailsCache st) of
           None \<Rightarrow> (Aborts NoReturn, st)
         | Some (loc, cache) \<Rightarrow>
             (Raises \<lparr>expected = maxFailExpected st, found = found1, location = loc\<rparr>,
              st\<lparr>posDetailsCache := cache\<rparr>))"

text \<open>
  The statements of \<open>peg$parse\<close> after the declarations: the call of the start
  rule and what follows it, where the call stack has room for \<open>stack\<close> nested
  calls of \<open>peg$parseEmbed\<close>.
\<close>

definition peg_parse_from ::
  "nat \<Rightarrow> ('x, 's) processEmbed \<Rightarrow> string \<Rightarrow> 's pstate \<Rightarrow> 'x outcome \<times> 's pstate" where
  "peg_parse_from stack processEmbed input st0 =
     (case parseSource stack processEmbed input st0 of
        (OK peg_result, st) \<Rightarrow>
          if currPos st = length input then (Returns peg_result, st)
          else raise_failure input
                 (if currPos st < length input then peg_fail EndExp st else st)
      | (FAILED, st) \<Rightarrow> raise_failure input st
      | (ABORT a, st) \<Rightarrow> (Aborts a, st))"

text \<open>
  \<open>peg$parse(input, options)\<close>, called where the stack has room for \<open>stack\<close> nested
  calls of \<open>peg$parseEmbed\<close>.
\<close>

definition peg_parse_stack ::
  "nat \<Rightarrow> ('x, 's) processEmbed \<Rightarrow> string \<Rightarrow> 's \<Rightarrow> 'x outcome \<times> 's pstate" where
  "peg_parse_stack stack processEmbed input h =
     peg_parse_from stack processEmbed input (initial_state h)"

text \<open>
  \<open>peg$parse(input, options)\<close>, called where the stack is no constraint: with
  room for more nested calls than the input has characters the stack is never
  used up, and every larger stack gives the same parse (section ``Termination of
  the parser'').
\<close>

definition peg_parse :: "('x, 's) processEmbed \<Rightarrow> string \<Rightarrow> 's \<Rightarrow> 'x outcome \<times> 's pstate" where
  "peg_parse processEmbed input h =
     peg_parse_from (Suc (length input)) processEmbed input (initial_state h)"

subsection \<open>Notions used in the statements\<close>

text \<open>
  The longest run of characters of a class that starts at the current position.
\<close>

definition run_of :: "(char \<Rightarrow> bool) \<Rightarrow> string \<Rightarrow> 's pstate \<Rightarrow> string" where
  "run_of cls input st = takeWhile cls (drop (currPos st) input)"

text \<open>
  The failure record agrees with the history of \<open>peg$fail\<close> calls:
  \<open>peg$maxFailPos\<close> is at least every position a failure was recorded at, it is
  such a position itself (or still 0), and \<open>peg$maxFailExpected\<close> holds, in
  order, the expectations of the failures recorded at that position.
\<close>

definition fail_inv :: "'s pstate \<Rightarrow> bool" where
  "fail_inv st =
     ((\<forall>(q, e) \<in> set (failLog st). q \<le> maxFailPos st)
      \<and> maxFailExpected st = map snd (filter (\<lambda>(q, e). q = maxFailPos st) (failLog st))
      \<and> (maxFailPos st = 0 \<or> maxFailPos st \<in> fst ` set (failLog st)))"

text \<open>
  The position cache is consistent with the input: it has its entry for
  position 0, and every entry is what the walk from the start of the input gives.
\<close>

definition cache_ok :: "string \<Rightarrow> (nat \<rightharpoonup> PosDetails) \<Rightarrow> bool" where
  "cache_ok input cache =
     (cache 0 = Some (1, 1) \<and> (\<forall>p d. cache p = Some d \<longrightarrow> d = walk input 0 p (1, 1)))"

text \<open>The invariant of the parser state during a parse.\<close>

definition state_inv :: "string \<Rightarrow> 's pstate \<Rightarrow> bool" where
  "state_inv input st =
     (fail_inv st \<and> cache_ok input (posDetailsCache st) \<and> currPos st \<le> length input)"

text \<open>
  The line and the column of an offset, read off the input: the line is one more
  than the number of line feeds before the offset, the column one more than the
  number of characters since the last of them (an offset beyond the end of the
  input counts on in the same line).
\<close>

definition line_at :: "string \<Rightarrow> nat \<Rightarrow> nat" where
  "line_at input p = 1 + length (filter (\<lambda>c. c = CHR 0x0A) (take p input))"

definition column_at :: "string \<Rightarrow> nat \<Rightarrow> nat" where
  "column_at input p =
     1 + length (takeWhile (\<lambda>c. c \<noteq> CHR 0x0A) (rev (take p input))) + (p - length input)"

text \<open>
  The range of two offsets with these lines and columns; it depends on the input
  and the two offsets only.
\<close>

definition span_of :: "string \<Rightarrow> nat \<Rightarrow> nat \<Rightarrow> FileRange" where
  "span_of input a b =
     \<lparr>start = \<lparr>offset = a, line = line_at input a, column = column_at input a\<rparr>,
      finish = \<lparr>offset = b, line = line_at input b, column = column_at input b\<rparr>\<rparr>"

text \<open>A rule keeps the invariant.\<close>

definition keeps :: "string \<Rightarrow> ('a, 'x, 's) rule \<Rightarrow> bool" where
  "keeps input p = (\<forall>st r st'. state_inv input st \<longrightarrow> p st = (r, st') \<longrightarrow> state_inv input st')"

text \<open>
  Two instances of \<open>processEmbed\<close> for concrete runs: one records the type, the
  argument texts and the flag of each call in the host state and returns the
  empty string; one throws at once.
\<close>

definition record_call :: "(unit, (EmbedType option \<times> string list \<times> bool) list) processEmbed" where
  "record_call type args multiline h = (Inr [], h @ [(type, map arg_full args, multiline)])"



text \<open>What one call of a rule does to the parser state, used to show that the fuel of the
  recursive rules is never exhausted: the call keeps \<^const>\<open>state_inv\<close>, never moves
  \<open>peg$currPos\<close> backwards, leaves it where it was when the rule fails, moves it forward when
  \<open>strict\<close> is set and the rule matches, and ends neither with \<^const>\<open>OutOfFuel\<close> nor with
  \<^const>\<open>NoReturn\<close> nor with \<^const>\<open>StackOverflow\<close>.\<close>

definition post :: "string \<Rightarrow> bool \<Rightarrow> 's pstate \<Rightarrow> ('a, 'x) res \<Rightarrow> 's pstate \<Rightarrow> bool" where
  "post input strict st r st' =
     (state_inv input st' \<and> currPos st \<le> currPos st'
      \<and> (r = FAILED \<longrightarrow> currPos st' = currPos st)
      \<and> (strict \<longrightarrow> (\<forall>v. r = OK v \<longrightarrow> currPos st < currPos st'))
      \<and> r \<noteq> ABORT OutOfFuel \<and> r \<noteq> ABORT NoReturn \<and> r \<noteq> ABORT StackOverflow)"

text \<open>A rule satisfies \<^const>\<open>post\<close> on every state that has fewer than \<open>b\<close> characters
  of the input left (counting the end of the input as one).\<close>

definition steps :: "string \<Rightarrow> nat \<Rightarrow> bool \<Rightarrow> ('a, 'x, 's) rule \<Rightarrow> bool" where
  "steps input b strict p =
     (\<forall>st r st'. state_inv input st \<longrightarrow> length input < currPos st + b \<longrightarrow> p st = (r, st') \<longrightarrow>
        post input strict st r st')"

text \<open>An instance of \<open>processEmbed\<close> that returns a string on every call.\<close>

definition never_throws :: "('x, 's) processEmbed \<Rightarrow> bool" where
  "never_throws pe = (\<forall>ty args ml h. \<exists>v h1. pe ty args ml h = (Inr v, h1))"

text \<open>
  The input of \<open>d\<close> directives nested in each other, the innermost with one
  empty branch: \<open>d\<close> opening braces and \<open>d\<close> closing braces.
\<close>

definition nest :: "nat \<Rightarrow> string" where
  "nest d = replicate d (CHR ''{'') @ replicate d (CHR ''}'')"

text \<open>The strings an instance of \<open>processEmbed\<close> can return.\<close>

definition outputs :: "('x, 's) processEmbed \<Rightarrow> string set" where
  "outputs pe = {v. \<exists>ty args ml h h1. pe ty args ml h = (Inr v, h1)}"

text \<open>
  The second rule does what the first does wherever the first ends without
  \<open>StackOverflow\<close>: used to compare the same rule under two sizes of the call
  stack.
\<close>

definition upto_overflow :: "('a, 'x, 's) rule \<Rightarrow> ('a, 'x, 's) rule \<Rightarrow> bool" where
  "upto_overflow p q =
     (\<forall>st r st'. p st = (r, st') \<longrightarrow> r \<noteq> ABORT StackOverflow \<longrightarrow> q st = (r, st'))"

section \<open>The selection engine for List directives\<close>

text \<open>
  Modelled from the spec: a Branch of a directive (section 3); the code of the
  Selection Engine (\<open>processEmbed\<close> in \<open>./inline_util\<close>) is not among the
  sources. A branch has an optional guard, an opaque expression source string,
  and its content, taken here as text already composed.
\<close>

record Branch =
  guard :: "string option"
  content :: string

text \<open>
  Modelled from the spec: a List Directive (section 3) of one of the four
  sequence types, with its branches in authoring order and its identity, the
  key of its state.
\<close>

record Directive =
  kind :: SequenceType
  branches :: "Branch list"
  identity :: string

text \<open>
  Modelled from the spec: the SequenceState of one identity (section 3): the
  counter and, for Shuffle, the order and the cursor.
\<close>

record SequenceState =
  counter :: nat
  order :: "nat list"
  cursor :: nat

text \<open>
  Modelled from the spec: the errors of resolution (section 7), the
  DefinitionError of a directive without branches and the EvaluationError of a
  guard, with the guard's source text.
\<close>

datatype ResolveError = DefinitionError string | EvaluationError string

text \<open>
  Modelled from the spec: the Sequence State Store, a mapping from identities to
  states (section 6); an identity without entry has not been evaluated yet.
\<close>

type_synonym Store = "string \<rightharpoonup> SequenceState"

text \<open>
  Modelled from the spec: \<open>eligible\<close> (section 4.3), the ordered sequence of
  the branches whose guard (if any) evaluates true this round, given by their
  indices. The expression evaluator is a function from the guard's source text
  to a boolean, or to nothing when it fails; a failing evaluation is an
  EvaluationError.
\<close>

fun eligible :: "(string \<Rightarrow> bool option) \<Rightarrow> nat \<Rightarrow> Branch list \<Rightarrow> ResolveError + nat list" where
  "eligible ev i [] = Inr []"
| "eligible ev i (b # bs) =
     (case guard b of
        None \<Rightarrow> (case eligible ev (Suc i) bs of Inl e \<Rightarrow> Inl e | Inr js \<Rightarrow> Inr (i # js))
      | Some g \<Rightarrow>
          (case ev g of
             None \<Rightarrow> Inl (EvaluationError g)
           | Some ok \<Rightarrow>
               (case eligible ev (Suc i) bs of
                  Inl e \<Rightarrow> Inl e
                | Inr js \<Rightarrow> Inr (if ok then i # js else js))))"

text \<open>
  Modelled from the spec: the renewal of the Shuffle order (section 4.3). When
  the cursor has reached the length of the order (also at the first visit, when
  there is no order yet), the caller-supplied random source \<open>fresh\<close> gives a
  permutation of the eligible indices, keeping the entry \<open>avoid\<close> off the first
  place, and the cursor is reset to 0.
\<close>

definition refill ::
  "(nat list \<Rightarrow> nat option \<Rightarrow> 'r \<Rightarrow> nat list \<times> 'r) \<Rightarrow> nat list \<Rightarrow> nat option \<Rightarrow> SequenceState \<Rightarrow> 'r
     \<Rightarrow> SequenceState \<times> 'r" where
  "refill fresh el avoid s r =
     (if cursor s < length (order s) then (s, r)
      else (case fresh el avoid r of (p, r1) \<Rightarrow> (s\<lparr>order := p, cursor := 0\<rparr>, r1)))"

text \<open>
  Modelled from the spec: the four disciplines (section 4.3) on a non-empty
  eligible sequence \<open>el\<close>. The result is the index of the branch to emit (none
  for the empty output of an exhausted OnceOnly), the new state and the random
  source's state. Stopping: \<open>eligible[min(counter, len - 1)]\<close>, \<open>counter += 1\<close>.
  Cycle: \<open>eligible[counter mod len]\<close>, \<open>counter += 1\<close>. OnceOnly:
  \<open>eligible[counter]\<close> and \<open>counter += 1\<close> while \<open>counter < len\<close>, then empty.
  Shuffle: the branch at \<open>order[cursor]\<close>, \<open>cursor += 1\<close>, and the renewal of
  the order when it is used up.
\<close>

definition select ::
  "SequenceType \<Rightarrow> (nat list \<Rightarrow> nat option \<Rightarrow> 'r \<Rightarrow> nat list \<times> 'r) \<Rightarrow> nat list \<Rightarrow> SequenceState \<Rightarrow> 'r
     \<Rightarrow> nat option \<times> SequenceState \<times> 'r" where
  "select k fresh el s r =
     (case k of
        Stopping \<Rightarrow> (Some (el ! min (counter s) (length el - 1)), s\<lparr>counter := counter s + 1\<rparr>, r)
      | Cycle \<Rightarrow> (Some (el ! (counter s mod length el)), s\<lparr>counter := counter s + 1\<rparr>, r)
      | OnlyOnce \<Rightarrow>
          (if counter s < length el
           then (Some (el ! counter s), s\<lparr>counter := counter s + 1\<rparr>, r)
           else (None, s, r))
      | Shuffle \<Rightarrow>
          (case refill fresh el None s r of
             (s1, r1) \<Rightarrow>
               if cursor s1 < length (order s1)
               then (let out = order s1 ! cursor s1;
                         s2 = s1\<lparr>cursor := cursor s1 + 1\<rparr>
                     in case refill fresh el (Some out) s2 r1 of
                          (s3, r3) \<Rightarrow> (Some out, s3, r3))
               else (None, s1, r1)))"

text \<open>
  Modelled from the spec: the state an identity gets at its first evaluation
  (section 3, lifecycle).
\<close>

definition new_state :: SequenceState where
  "new_state = \<lparr>counter = 0, order = [], cursor = 0\<rparr>"

text \<open>
  Modelled from the spec: one evaluation round of a List directive (sections
  4.3 and 7). A directive without branches is a DefinitionError. If no branch is
  eligible the output is empty and nothing is stored. Otherwise the state of
  the directive's identity is advanced by \<open>select\<close> and stored, and the output
  is the content of the chosen branch.
\<close>

definition list_round ::
  "(string \<Rightarrow> bool option) \<Rightarrow> (nat list \<Rightarrow> nat option \<Rightarrow> 'r \<Rightarrow> nat list \<times> 'r) \<Rightarrow> Directive
     \<Rightarrow> Store \<times> 'r \<Rightarrow> ResolveError + (string \<times> Store \<times> 'r)" where
  "list_round ev fresh d sr =
     (case sr of (store, r) \<Rightarrow>
        if branches d = [] then Inl (DefinitionError (identity d))
        else (case eligible ev 0 (branches d) of
                Inl e \<Rightarrow> Inl e
              | Inr el \<Rightarrow>
                  if el = [] then Inr ([], store, r)
                  else (let s = (case store (identity d) of None \<Rightarrow> new_state | Some s0 \<Rightarrow> s0)
                        in case select (kind d) fresh el s r of
                             (chosen, s1, r1) \<Rightarrow>
                               Inr (case chosen of None \<Rightarrow> []
                                    | Some i \<Rightarrow> content (branches d ! i),
                                    store(identity d \<mapsto> s1), r1))))"

text \<open>
  Modelled from the spec: repeated rounds of one directive (section 8), with
  the outputs in order; an error ends them.
\<close>

fun rounds ::
  "nat \<Rightarrow> (string \<Rightarrow> bool option) \<Rightarrow> (nat list \<Rightarrow> nat option \<Rightarrow> 'r \<Rightarrow> nat list \<times> 'r) \<Rightarrow> Directive
     \<Rightarrow> Store \<times> 'r \<Rightarrow> string list" where
  "rounds 0 ev fresh d sr = []"
| "rounds (Suc n) ev fresh d sr =
     (case list_round ev fresh d sr of
        Inl e \<Rightarrow> []
      | Inr (out, sr1) \<Rightarrow> out # rounds n ev fresh d sr1)"

text \<open>
  Modelled from the spec: every branch of a list has a guard and every guard
  evaluates false (section 4.3, the round without eligible branch).
\<close>

definition all_guards_false :: "(string \<Rightarrow> bool option) \<Rightarrow> Branch list \<Rightarrow> bool" where
  "all_guards_false ev bs =
     list_all (\<lambda>b. case guard b of None \<Rightarrow> False | Some g \<Rightarrow> ev g = Some False) bs"
section \<open>Properties of the localization tables\<close>

lemma load_map_fold:
  "fold (\<lambda>(key, v) m. m(key \<mapsto> v)) data m0 = m0 ++ map_of (rev data)"
  by (induction data arbitrary: m0) (auto simp: map_add_def fun_eq_iff split: option.splits)

lemma load_map_eq: "load_map data = map_of (rev data)"
  by (simp add: load_map_def load_map_fold)

text \<open>
  Claim C9. \<open>load(language, data)\<close> makes the loaded language active when no
  language is active, leaves the active language as it is otherwise, and in both
  cases only stores (or replaces) the table of the loaded language: every other
  language keeps its table, and the table stored holds each key of \<open>data\<close> with
  its string.
\<close>

theorem load_active_and_table:
  "activeLanguage (load language data l) =
     (case activeLanguage l of None \<Rightarrow> Some language | Some a \<Rightarrow> Some a)
   \<and> languages (load language data l) = (languages l)(language \<mapsto> load_map data)
   \<and> load_map data = map_of (rev data)"
  by (simp add: load_def Let_def load_map_eq split: option.splits)

text \<open>
  Claim C10, as stated, fails for a language loaded under the empty name: \<open>get\<close>
  treats the empty string like \<open>undefined\<close> (\<open>!lang\<close>) and returns \<open>undefined\<close>
  although the language is loaded, is active, and holds the id.
\<close>

theorem get_empty_language_counterexample:
  "activeLanguage (load [] [(''a'', ''x'')] Localization_new) = Some []
   \<and> lookup (load [] [(''a'', ''x'')] Localization_new) [] ''a'' = Some ''x''
   \<and> get ''a'' None (load [] [(''a'', ''x'')] Localization_new) = None
   \<and> get ''a'' (Some []) (load [] [(''a'', ''x'')] Localization_new) = None"
  by (simp add: load_def load_map_def Localization_new_def get_def selected_def lookup_def Let_def)

text \<open>
  Claim C10, amended. \<open>get\<close> is a total function (\<open>None\<close> is \<open>undefined\<close>; no
  step of it can throw). It returns \<open>undefined\<close> when no language is selected
  (no argument and no active language), when the selected language is the empty
  string, when the selected language is not loaded, or when the id is absent from
  its table; for a non-empty selected language it returns the string loaded for
  the id.
\<close>

theorem get_cases:
  "(selected language l = None \<longrightarrow> get ident language l = None)
   \<and> (selected language l = Some [] \<longrightarrow> get ident language l = None)
   \<and> (\<forall>lang. selected language l = Some lang \<longrightarrow> languages l lang = None
        \<longrightarrow> get ident language l = None)
   \<and> (\<forall>lang tbl. selected language l = Some lang \<longrightarrow> languages l lang = Some tbl
        \<longrightarrow> tbl ident = None \<longrightarrow> get ident language l = None)
   \<and> (\<forall>lang tbl s. selected language l = Some lang \<longrightarrow> lang \<noteq> []
        \<longrightarrow> languages l lang = Some tbl \<longrightarrow> tbl ident = Some s
        \<longrightarrow> get ident language l = Some s)"
  by (auto simp: get_def lookup_def)

theorem get_cases_witness:
  "selected None (load ''en'' [(''a'', ''x'')] Localization_new) = Some ''en''
   \<and> ''en'' \<noteq> []
   \<and> languages (load ''en'' [(''a'', ''x'')] Localization_new) ''en'' = Some (load_map [(''a'', ''x'')])
   \<and> load_map [(''a'', ''x'')] ''a'' = Some ''x''
   \<and> get ''a'' None (load ''en'' [(''a'', ''x'')] Localization_new) = Some ''x''
   \<and> selected None Localization_new = None
   \<and> get ''a'' None Localization_new = None"
proof -
  let ?l = "load ''en'' [(''a'', ''x'')] Localization_new"
  have s: "selected None ?l = Some ''en''"
    by (simp add: selected_def load_def Localization_new_def Let_def)
  have t: "languages ?l ''en'' = Some (load_map [(''a'', ''x'')])"
    by (simp add: load_def Localization_new_def Let_def)
  have v: "load_map [(''a'', ''x'')] ''a'' = Some ''x''"
    by (simp add: load_map_def)
  have n: "selected None Localization_new = None"
    by (simp add: selected_def Localization_new_def)
  from get_cases [of None ?l "''a''"] s t v
  have g: "get ''a'' None ?l = Some ''x''" by simp
  from get_cases [of None Localization_new "''a''"] n
  have g0: "get ''a'' None Localization_new = None" by simp
  from s t v n g g0 show ?thesis by simp
qed

section \<open>Properties of the parser\<close>

declare parseEmbed.simps [simp del]
declare many.simps [simp del]

lemma peg_fail_fields [simp]:
  "currPos (peg_fail e st) = currPos st"
  "savedPos (peg_fail e st) = savedPos st"
  "posDetailsCache (peg_fail e st) = posDetailsCache st"
  "host (peg_fail e st) = host st"
  "failLog (peg_fail e st) = failLog st @ [(currPos st, e)]"
  by (simp_all add: peg_fail_def Let_def)

lemma peg_fail_currPos_update:
  "peg_fail e st\<lparr>savedPos := p\<rparr> = peg_fail e (st\<lparr>savedPos := p\<rparr>)"
  by (simp add: peg_fail_def Let_def)

lemma run_of_step:
  "currPos st < length input \<Longrightarrow> cls (input ! currPos st) \<Longrightarrow>
   run_of cls input st = input ! currPos st # run_of cls input (st\<lparr>currPos := currPos st + 1\<rparr>)"
  by (simp add: run_of_def Cons_nth_drop_Suc [symmetric])

lemma run_of_stop:
  "\<not> (currPos st < length input \<and> cls (input ! currPos st)) \<Longrightarrow> run_of cls input st = []"
  by (cases "currPos st < length input")
     (simp_all add: run_of_def Cons_nth_drop_Suc [symmetric])

lemma class_loop_eq:
  "class_loop cls e input st =
     peg_fail e (st\<lparr>currPos := currPos st + length (run_of cls input st)\<rparr>)"
proof (induction cls e input st rule: class_loop.induct)
  case (1 cls e input st)
  show ?case
  proof (cases "currPos st < length input \<and> cls (input ! currPos st)")
    case True
    then have "class_loop cls e input st = class_loop cls e input (st\<lparr>currPos := currPos st + 1\<rparr>)"
      by (subst class_loop.simps) (simp add: match_class_def)
    also have "\<dots> = peg_fail e (st\<lparr>currPos := currPos st + 1 + length (run_of cls input (st\<lparr>currPos := currPos st + 1\<rparr>))\<rparr>)"
      using True "1.IH" [of True "st\<lparr>currPos := currPos st + 1\<rparr>"]
      by (simp add: match_class_def)
    finally show ?thesis using True by (simp add: run_of_step)
  next
    case False
    then have "class_loop cls e input st = peg_fail e st"
      by (subst class_loop.simps) (auto simp add: match_class_def)
    then show ?thesis using False by (simp add: run_of_stop)
  qed
qed

lemma substring_run:
  "substring input (currPos st) (currPos st + length (run_of cls input st)) = run_of cls input st"
  by (simp add: substring_def run_of_def) (metis takeWhile_eq_take length_takeWhile_le take_all_iff min.absorb_iff2 take_take)

lemma text_rule_body:
  "(case match_class cls e input st of
      (False, st1) \<Rightarrow> (FAILED, st1)
    | (True, st1) \<Rightarrow>
        (OK (f (text_of input ((class_loop cls e input st1)\<lparr>savedPos := currPos st\<rparr>))),
         (class_loop cls e input st1)\<lparr>savedPos := currPos st\<rparr>))
   = (if run_of cls input st = [] then (FAILED, peg_fail e st)
      else (OK (f (run_of cls input st)),
            (peg_fail e (st\<lparr>currPos := currPos st + length (run_of cls input st)\<rparr>))
              \<lparr>savedPos := currPos st\<rparr>))"
proof (cases "currPos st < length input \<and> cls (input ! currPos st)")
  case True
  have "substring input (currPos st) (currPos st + length (run_of cls input st)) = run_of cls input st"
    by (rule substring_run)
  with True show ?thesis
    by (simp add: match_class_def class_loop_eq run_of_step Let_def text_of_def)
next
  case False
  then show ?thesis
    by (auto simp add: match_class_def run_of_stop)
qed

lemma parseText_eq:
  "parseText input st =
     (if run_of peg_c51 input st = [] then (FAILED, peg_fail peg_c52 st)
      else (OK (run_of peg_c51 input st),
            (peg_fail peg_c52 (st\<lparr>currPos := currPos st + length (run_of peg_c51 input st)\<rparr>))
              \<lparr>savedPos := currPos st\<rparr>))"
  unfolding parseText_def Let_def
  using text_rule_body [where cls=peg_c51 and e=peg_c52 and input=input and st=st and f=id] by (simp only: id_apply)

lemma parseInlineText_eq:
  "parseInlineText input st =
     (if run_of peg_c49 input st = [] then (FAILED, peg_fail peg_c50 st)
      else (OK (run_of peg_c49 input st),
            (peg_fail peg_c50 (st\<lparr>currPos := currPos st + length (run_of peg_c49 input st)\<rparr>))
              \<lparr>savedPos := currPos st\<rparr>))"
  unfolding parseInlineText_def Let_def
  using text_rule_body [where cls=peg_c49 and e=peg_c50 and input=input and st=st and f=id] by (simp only: id_apply)

lemma parseInlineMultilineText_eq:
  "parseInlineMultilineText input st =
     (if run_of peg_c46 input st = [] then (FAILED, peg_fail peg_c47 st)
      else (OK (trim (run_of peg_c46 input st)),
            (peg_fail peg_c47 (st\<lparr>currPos := currPos st + length (run_of peg_c46 input st)\<rparr>))
              \<lparr>savedPos := currPos st\<rparr>))"
  unfolding parseInlineMultilineText_def Let_def
  using text_rule_body [where cls=peg_c46 and e=peg_c47 and input=input and st=st and f=trim] by (simp only: id_apply)

text \<open>
  Claim C4, amended. The three text rules consume the longest non-empty run of
  characters of their class and fail on an empty run. The classes are: for the
  top-level \<open>Text\<close> every character but the two braces; for the inline
  argument text every character but the braces, the pipe, CR and LF; for the
  multi-line argument text every character but the braces and the dash (the pipe
  and the line breaks are accepted there).
\<close>

theorem text_classes:
  "fst (parseText input st) =
     (if run_of peg_c51 input st = [] then FAILED else OK (run_of peg_c51 input st))
   \<and> fst (parseInlineText input st) =
     (if run_of peg_c49 input st = [] then FAILED else OK (run_of peg_c49 input st))
   \<and> fst (parseInlineMultilineText input st) =
     (if run_of peg_c46 input st = [] then FAILED else OK (trim (run_of peg_c46 input st)))
   \<and> peg_c51 c = (c \<notin> {CHR ''{'', CHR ''}''})
   \<and> peg_c49 c = (c \<notin> {CHR ''{'', CHR ''}'', CHR ''|'', CHR 0x0D, CHR 0x0A})
   \<and> peg_c46 c = (c \<notin> {CHR ''{'', CHR ''}'', CHR ''-''})"
  by (simp add: parseText_eq parseInlineText_eq parseInlineMultilineText_eq
        peg_c51_def peg_c49_def peg_c46_def)

text \<open>
  Claim C4, as stated, fails: the text of a multi-line argument does not exclude
  the pipe or the line breaks. On \<open>a|b<LF>c-d\<close> the rule consumes the pipe and
  the line feed and stops at the dash.
\<close>

theorem multiline_text_counterexample:
  "fst (parseInlineMultilineText (''a|b'' @ [CHR 0x0A] @ ''c-d'') (initial_state ()))
     = OK (''a|b'' @ [CHR 0x0A] @ ''c'')
   \<and> peg_c46 (CHR ''|'') \<and> peg_c46 (CHR 0x0A) \<and> peg_c46 (CHR 0x0D)"
  by (simp add: parseInlineMultilineText_eq run_of_def initial_state_def peg_c46_def
        trim_def js_space_def)

text \<open>
  Claim C6. The text fragment returned by \<open>InlineMultilineText\<close> (the text of a
  multi-line branch) is the consumed input trimmed of white space at both ends;
  the fragments returned by \<open>InlineText\<close> (inline branch) and \<open>Text\<close> (top
  level) are the consumed input itself.
\<close>

theorem text_trimming:
  "(parseInlineMultilineText input st = (OK v, st') \<longrightarrow>
      v = trim (substring input (currPos st) (currPos st')))
   \<and> (parseInlineText input st = (OK v, st') \<longrightarrow>
      v = substring input (currPos st) (currPos st'))
   \<and> (parseText input st = (OK v, st') \<longrightarrow>
      v = substring input (currPos st) (currPos st'))"
  by (auto simp add: parseText_eq parseInlineText_eq parseInlineMultilineText_eq substring_run
        split: if_splits)

theorem text_trimming_witness:
  "parseInlineMultilineText '' a '' (initial_state ()) =
     (OK ''a'', snd (parseInlineMultilineText '' a '' (initial_state ())))
   \<and> ''a'' = trim (substring '' a '' (currPos (initial_state ())) (currPos (snd (parseInlineMultilineText '' a '' (initial_state ())))))
   \<and> parseInlineText '' a '' (initial_state ()) =
     (OK '' a '', snd (parseInlineText '' a '' (initial_state ())))
   \<and> '' a '' = substring '' a '' (currPos (initial_state ())) (currPos (snd (parseInlineText '' a '' (initial_state ()))))
   \<and> parseText '' a '' (initial_state ()) =
     (OK '' a '', snd (parseText '' a '' (initial_state ())))
   \<and> '' a '' = substring '' a '' (currPos (initial_state ())) (currPos (snd (parseText '' a '' (initial_state ()))))"
proof -
  let ?s = "initial_state ()"
  have m: "parseInlineMultilineText '' a '' ?s = (OK ''a'', snd (parseInlineMultilineText '' a '' ?s))"
    by (simp add: parseInlineMultilineText_eq run_of_def initial_state_def peg_c46_def
          trim_def js_space_def)
  have i: "parseInlineText '' a '' ?s = (OK '' a '', snd (parseInlineText '' a '' ?s))"
    by (simp add: parseInlineText_eq run_of_def initial_state_def peg_c49_def)
  have t: "parseText '' a '' ?s = (OK '' a '', snd (parseText '' a '' ?s))"
    by (simp add: parseText_eq run_of_def initial_state_def peg_c51_def)
  from text_trimming [of "'' a ''" ?s "''a''" "snd (parseInlineMultilineText '' a '' ?s)"] m
  have 1: "''a'' = trim (substring '' a '' (currPos ?s) (currPos (snd (parseInlineMultilineText '' a '' ?s))))"
    by blast
  from text_trimming [of "'' a ''" ?s "'' a ''" "snd (parseInlineText '' a '' ?s)"] i
  have 2: "'' a '' = substring '' a '' (currPos ?s) (currPos (snd (parseInlineText '' a '' ?s)))"
    by blast
  from text_trimming [of "'' a ''" ?s "'' a ''" "snd (parseText '' a '' ?s)"] t
  have 3: "'' a '' = substring '' a '' (currPos ?s) (currPos (snd (parseText '' a '' ?s)))"
    by blast
  from m i t 1 2 3 show ?thesis by blast
qed


lemma match_char_miss:
  "\<not> (currPos st < length input \<and> input ! currPos st = c) \<Longrightarrow>
   match_char c e input st = (False, peg_fail e st)"
  by (auto simp add: match_char_def)

lemma match_char_hit:
  "currPos st < length input \<Longrightarrow> input ! currPos st = c \<Longrightarrow>
   match_char c e input st = (True, st\<lparr>currPos := currPos st + 1\<rparr>)"
  by (simp add: match_char_def)

lemma parseInlineEmbed_off_brace:
  "\<not> (currPos st < length input \<and> input ! currPos st = CHR ''{'') \<Longrightarrow>
   parseInlineEmbed fuel pe emb input st = (FAILED, (peg_fail peg_c2 st)\<lparr>currPos := currPos st\<rparr>)"
  by (simp add: parseInlineEmbed_def Let_def match_char_miss)

lemma parseMutliLineEmbed_off_brace:
  "\<not> (currPos st < length input \<and> input ! currPos st = CHR ''{'') \<Longrightarrow>
   parseMutliLineEmbed fuel pe emb input st = (FAILED, (peg_fail peg_c2 st)\<lparr>currPos := currPos st\<rparr>)"
  by (simp add: parseMutliLineEmbed_def Let_def match_char_miss)

lemma parseEmbed_off_brace:
  assumes "\<not> (currPos st < length input \<and> input ! currPos st = CHR ''{'')"
  shows "parseEmbed (Suc fuel) pe input st =
           (FAILED, (peg_fail peg_c2 ((peg_fail peg_c2 st)\<lparr>currPos := currPos st\<rparr>))
                      \<lparr>currPos := currPos st\<rparr>)"
proof -
  have "\<not> (currPos ((peg_fail peg_c2 st)\<lparr>currPos := currPos st\<rparr>) < length input
            \<and> input ! currPos ((peg_fail peg_c2 st)\<lparr>currPos := currPos st\<rparr>) = CHR ''{'')"
    using assms by simp
  from parseMutliLineEmbed_off_brace [OF this, of "Suc (length input)" pe "parseEmbed fuel pe input"]
    parseInlineEmbed_off_brace [OF assms, of "Suc (length input)" pe "parseEmbed fuel pe input"]
  show ?thesis by (simp add: parseEmbed.simps orElse_def)
qed

lemma all_text_run:
  assumes "CHR ''{'' \<notin> set input" and "CHR ''}'' \<notin> set input" and "currPos st = 0"
  shows "run_of peg_c51 input st = input"
proof -
  have "\<forall>c\<in>set input. peg_c51 c" using assms by (auto simp add: peg_c51_def)
  then show ?thesis using assms(3) by (simp add: run_of_def)
qed

lemma run_of_at_end: "length input \<le> currPos st \<Longrightarrow> run_of cls input st = []"
  by (simp add: run_of_def)

lemma source_item_at_end:
  assumes "length input \<le> currPos st"
  shows "\<exists>st'. orElse (parseText input) (parseEmbed (Suc fuel) (pe :: ('x, 's) processEmbed) input) st
               = (FAILED, st')
            \<and> currPos st' = currPos st \<and> host st' = host st"
proof -
  have t: "parseText input st = ((FAILED :: (string, 'x) res), peg_fail peg_c52 st)"
    using assms by (simp add: parseText_eq run_of_at_end)
  have "\<not> (currPos (peg_fail peg_c52 st) < length input
            \<and> input ! currPos (peg_fail peg_c52 st) = CHR ''{'')"
    using assms by simp
  from parseEmbed_off_brace [OF this, of fuel pe] t show ?thesis
    by (simp add: orElse_def)
qed

text \<open>
  Claim C1. For an input without \<open>{\<close> and without \<open>}\<close> the parse from the root
  rule \<open>Source\<close> succeeds and returns the input unchanged; \<open>processEmbed\<close> is
  not called, so the host state is unchanged too.
\<close>

theorem source_without_braces:
  assumes "CHR ''{'' \<notin> set input" and "CHR ''}'' \<notin> set input"
  shows "fst (peg_parse (pe :: ('x, 's) processEmbed) input h) = Returns input
         \<and> host (snd (peg_parse pe input h)) = h"
proof (cases "input = []")
  case True
  let ?st0 = "initial_state h :: 's pstate"
  have "length input \<le> currPos ?st0" using True by (simp add: initial_state_def)
  from source_item_at_end [OF this, of "length input" pe]
  obtain st' where i: "orElse (parseText input) (parseEmbed (Suc (length input)) pe input) ?st0 = (FAILED, st')"
    and p: "currPos st' = currPos ?st0" and hst: "host st' = host ?st0"
    by blast
  have "many (Suc (length input)) (orElse (parseText input) (parseEmbed (Suc (length input)) pe input)) ?st0 []
          = (OK [], st')"
    using i by (simp add: many.simps)
  then show ?thesis using True p hst
    by (simp add: peg_parse_def peg_parse_from_def parseSource_def Let_def peg_c0_def initial_state_def)
next
  case False
  let ?st0 = "initial_state h :: 's pstate"
  let ?item = "orElse (parseText input) (parseEmbed (Suc (length input)) pe input)"
  have r: "run_of peg_c51 input ?st0 = input"
    using assms by (intro all_text_run) (simp_all add: initial_state_def)
  define st1 where "st1 = (peg_fail peg_c52 (?st0\<lparr>currPos := currPos ?st0 + length input\<rparr>))\<lparr>savedPos := currPos ?st0\<rparr>"
  have t: "parseText input ?st0 = ((OK input :: (string, 'x) res), st1)"
    using False r by (simp add: parseText_eq st1_def)
  have p1: "currPos st1 = length input" and h1: "host st1 = h"
    by (simp_all add: st1_def initial_state_def)
  from source_item_at_end [of input st1 "length input" pe] p1
  obtain st2 where i2: "?item st1 = (FAILED, st2)"
    and p2: "currPos st2 = length input" and h2: "host st2 = h"
    using h1 by auto
  obtain m where m: "length input = Suc m" using False by (cases input) auto
  have "many (Suc (length input)) ?item ?st0 [] = many (length input) ?item st1 [input]"
    using t by (simp add: many.simps orElse_def)
  also have "\<dots> = (OK [input], st2)"
    using i2 by (simp add: m many.simps)
  finally show ?thesis using p2 h2
    by (simp add: peg_parse_def peg_parse_from_def parseSource_def Let_def peg_c0_def)
qed

theorem source_without_braces_witness:
  "CHR ''{'' \<notin> set ''Hello, world'' \<and> CHR ''}'' \<notin> set ''Hello, world''
   \<and> fst (peg_parse (\<lambda>ty args ml h. (Inl (), h)) ''Hello, world'' ()) = Returns ''Hello, world''"
  using source_without_braces [of "''Hello, world''" "\<lambda>ty args ml h. (Inl (), h)" "()"]
  by simp

lemma fail_inv_peg_fail: "fail_inv st \<Longrightarrow> fail_inv (peg_fail e st)"
  unfolding fail_inv_def peg_fail_def Let_def
  by (auto simp add: filter_empty_conv rev_image_eqI split: if_splits)

lemma fail_inv_updates [simp]:
  "fail_inv (st\<lparr>currPos := p\<rparr>) = fail_inv st"
  "fail_inv (st\<lparr>savedPos := p\<rparr>) = fail_inv st"
  "fail_inv (st\<lparr>host := h\<rparr>) = fail_inv st"
  "fail_inv (st\<lparr>posDetailsCache := c\<rparr>) = fail_inv st"
  by (simp_all add: fail_inv_def)

lemma state_inv_peg_fail: "state_inv input st \<Longrightarrow> state_inv input (peg_fail e st)"
  by (simp add: state_inv_def fail_inv_peg_fail)

lemma state_inv_updates [simp]:
  "state_inv input (st\<lparr>savedPos := p\<rparr>) = state_inv input st"
  "state_inv input (st\<lparr>host := h\<rparr>) = state_inv input st"
  by (simp_all add: state_inv_def)

lemma state_inv_currPos:
  "state_inv input st \<Longrightarrow> p \<le> length input \<Longrightarrow> state_inv input (st\<lparr>currPos := p\<rparr>)"
  by (simp add: state_inv_def)

lemma state_inv_le: "state_inv input st \<Longrightarrow> currPos st \<le> length input"
  by (simp add: state_inv_def)

lemma match_char_inv:
  "match_char c e input st = (b, st') \<Longrightarrow> state_inv input st \<Longrightarrow> state_inv input st'"
  by (auto simp add: match_char_def state_inv_peg_fail state_inv_currPos split: if_splits)

lemma match_class_inv:
  "match_class cls e input st = (b, st') \<Longrightarrow> state_inv input st \<Longrightarrow> state_inv input st'"
  by (auto simp add: match_class_def state_inv_peg_fail state_inv_currPos split: if_splits)

lemma match_str_inv:
  "match_str lit e input st = (b, st') \<Longrightarrow> state_inv input st \<Longrightarrow> state_inv input st'"
proof -
  have "take (length lit) (drop (currPos st) input) = lit \<Longrightarrow> currPos st + length lit \<le> length input \<or> lit = []"
    by (metis length_take length_drop min.cobounded2 le_diff_conv2 add.commute nat_le_linear
          diff_is_0_eq' min.absorb4 min_def take_eq_Nil length_0_conv)
  then show "match_str lit e input st = (b, st') \<Longrightarrow> state_inv input st \<Longrightarrow> state_inv input st'"
    by (auto simp add: match_str_def state_inv_peg_fail state_inv_currPos state_inv_le split: if_splits)
qed

lemma run_of_bound: "currPos st \<le> length input \<Longrightarrow> currPos st + length (run_of cls input st) \<le> length input"
  using length_takeWhile_le [of cls "drop (currPos st) input"] by (simp add: run_of_def)

lemma class_loop_inv:
  "state_inv input st \<Longrightarrow> state_inv input (class_loop cls e input st)"
  by (simp add: class_loop_eq state_inv_peg_fail state_inv_currPos run_of_bound state_inv_le)

lemma cache_okD: "cache_ok input cache \<Longrightarrow> cache p = Some d \<Longrightarrow> d = walk input 0 p (1, 1)"
  unfolding cache_ok_def by blast

lemma walk_step:
  "p < pos \<Longrightarrow> walk input p pos d =
     walk input (p + 1) pos
       (if p < length input \<and> input ! p = CHR 0x0A then (fst d + 1, 1) else (fst d, snd d + 1))"
  by (subst walk.simps) simp

lemma walk_stop: "\<not> p < pos \<Longrightarrow> walk input p pos d = d"
  by (subst walk.simps) simp

lemma walk_split:
  "p \<le> m \<Longrightarrow> m \<le> pos \<Longrightarrow> walk input p pos d = walk input m pos (walk input p m d)"
proof (induction input p m d rule: walk.induct)
  case (1 input p m d)
  show ?case
  proof (cases "p < m")
    case True
    then have "p < pos" using "1.prems" by simp
    with True "1.IH" [OF True] "1.prems" show ?thesis
      by (simp add: walk_step [of p pos] walk_step [of p m])
  next
    case False
    then show ?thesis using "1.prems" by (simp add: walk_stop)
  qed
qed

lemma walk_last:
  "walk input 0 (Suc p) d =
     (let d1 = walk input 0 p d
      in if p < length input \<and> input ! p = CHR 0x0A then (fst d1 + 1, 1) else (fst d1, snd d1 + 1))"
proof -
  have "walk input 0 (Suc p) d = walk input p (Suc p) (walk input 0 p d)"
    by (rule walk_split) simp_all
  then show ?thesis
    by (simp add: walk_step [of p "Suc p"] walk_stop Let_def)
qed

lemma walk_from_start: "walk input 0 p (1, 1) = (line_at input p, column_at input p)"
proof (induction p)
  case 0
  show ?case by (simp add: walk_stop line_at_def column_at_def)
next
  case (Suc p)
  show ?case
  proof (cases "p < length input")
    case True
    then have t: "take (Suc p) input = take p input @ [input ! p]"
      by (simp add: take_Suc_conv_app_nth)
    show ?thesis using True Suc
      by (simp add: walk_last t line_at_def column_at_def)
  next
    case False
    then show ?thesis using Suc
      by (simp add: walk_last line_at_def column_at_def Suc_diff_le)
  qed
qed

lemma prev_cached_ok:
  assumes "cache_ok input cache"
  shows "\<exists>p. p \<le> q \<and> prev_cached cache q = Some (p, walk input 0 p (1, 1))"
proof (induction q)
  case 0
  then show ?case using assms by (simp add: cache_ok_def walk_stop)
next
  case (Suc q)
  show ?case
  proof (cases "cache (Suc q)")
    case None
    then show ?thesis using Suc by auto
  next
    case (Some d)
    then have "d = walk input 0 (Suc q) (1, 1)" using assms by (rule cache_okD [rotated])
    then show ?thesis using Some by auto
  qed
qed

lemma computePosDetails_ok:
  assumes "cache_ok input cache"
  shows "\<exists>cache'. computePosDetails input pos cache = Some (walk input 0 pos (1, 1), cache')
            \<and> cache_ok input cache'"
proof (cases "cache pos")
  case (Some d)
  then have "d = walk input 0 pos (1, 1)" using assms by (rule cache_okD [rotated])
  then show ?thesis using Some assms by (simp add: computePosDetails_def)
next
  case None
  then obtain q where q: "pos = Suc q" using assms by (cases pos) (auto simp add: cache_ok_def)
  from prev_cached_ok [OF assms, of q] obtain p
    where p: "p \<le> q" "prev_cached cache q = Some (p, walk input 0 p (1, 1))" by blast
  have w: "walk input p pos (walk input 0 p (1, 1)) = walk input 0 pos (1, 1)"
    using walk_split [of 0 p pos input "(1, 1)"] p(1) q by simp
  have "cache_ok input (cache(pos \<mapsto> walk input 0 pos (1, 1)))"
    using assms q by (simp add: cache_ok_def)
  then show ?thesis using None q p(2) w by (simp add: computePosDetails_def Let_def)
qed

lemma computeLocation_ok:
  assumes "cache_ok input cache"
  shows "\<exists>cache'. computeLocation input a b cache = Some (span_of input a b, cache')
            \<and> cache_ok input cache'"
proof -
  from computePosDetails_ok [OF assms, of a] obtain c1
    where c1: "computePosDetails input a cache = Some (walk input 0 a (1, 1), c1)" "cache_ok input c1"
    by blast
  from computePosDetails_ok [OF c1(2), of b] obtain c2
    where c2: "computePosDetails input b c1 = Some (walk input 0 b (1, 1), c2)" "cache_ok input c2"
    by blast
  show ?thesis using c1 c2 walk_from_start [of input a] walk_from_start [of input b]
    by (simp add: computeLocation_def span_of_def)
qed

lemma location_of_ok:
  assumes "state_inv input st"
  shows "\<exists>cache'. location_of input st =
            Some (span_of input (savedPos st) (currPos st), st\<lparr>posDetailsCache := cache'\<rparr>)
          \<and> state_inv input (st\<lparr>posDetailsCache := cache'\<rparr>)"
proof -
  have "cache_ok input (posDetailsCache st)" using assms by (simp add: state_inv_def)
  from computeLocation_ok [OF this, of "savedPos st" "currPos st"] obtain c
    where "computeLocation input (savedPos st) (currPos st) (posDetailsCache st)
             = Some (span_of input (savedPos st) (currPos st), c)" "cache_ok input c"
    by blast
  then show ?thesis using assms by (auto simp add: location_of_def state_inv_def)
qed

lemma parseWhitespace_inv:
  "parseWhitespace input st = (r, st') \<Longrightarrow> state_inv input st \<Longrightarrow> state_inv input st'"
  by (auto simp add: parseWhitespace_def Let_def class_loop_inv)

lemma parseNewline_inv:
  "parseNewline input st = (r, st') \<Longrightarrow> state_inv input st \<Longrightarrow> state_inv input st'"
  by (auto simp add: parseNewline_def Let_def state_inv_currPos state_inv_le
        split: prod.splits bool.splits dest: match_char_inv)

lemma parseStopping_Id_inv:
  "parseStopping_Id input st = (r, st') \<Longrightarrow> state_inv input st \<Longrightarrow> state_inv input st'"
  by (auto simp add: parseStopping_Id_def Let_def split: prod.splits bool.splits dest: match_str_inv)

lemma parseShuffle_Id_inv:
  "parseShuffle_Id input st = (r, st') \<Longrightarrow> state_inv input st \<Longrightarrow> state_inv input st'"
  by (auto simp add: parseShuffle_Id_def Let_def split: prod.splits bool.splits
        dest: match_str_inv match_char_inv)

lemma parseCycle_Id_inv:
  "parseCycle_Id input st = (r, st') \<Longrightarrow> state_inv input st \<Longrightarrow> state_inv input st'"
  by (auto simp add: parseCycle_Id_def Let_def split: prod.splits bool.splits
        dest: match_str_inv match_char_inv)

lemma parseOnce_Only_Id_inv:
  "parseOnce_Only_Id input st = (r, st') \<Longrightarrow> state_inv input st \<Longrightarrow> state_inv input st'"
  by (auto simp add: parseOnce_Only_Id_def Let_def split: prod.splits bool.splits
        dest: match_str_inv match_char_inv)

lemma orElse_inv:
  assumes "orElse p q st = (r, st')" and "state_inv input st"
    and "\<And>r1 st1. p st = (r1, st1) \<Longrightarrow> state_inv input st1"
    and "\<And>st1 r2 st2. state_inv input st1 \<Longrightarrow> q st1 = (r2, st2) \<Longrightarrow> state_inv input st2"
  shows "state_inv input st'"
  using assms by (auto simp add: orElse_def split: prod.splits res.splits)

lemma optional_inv:
  assumes "optional p st = (r, st')" and "\<And>r1 st1. p st = (r1, st1) \<Longrightarrow> state_inv input st1"
  shows "state_inv input st'"
  using assms by (auto simp add: optional_def split: prod.splits res.splits)

lemma parseType_inv:
  "parseType input st = (r, st') \<Longrightarrow> state_inv input st \<Longrightarrow> state_inv input st'"
  unfolding parseType_def
  by (erule orElse_inv, assumption, erule (1) parseStopping_Id_inv,
      erule orElse_inv, assumption, erule (1) parseShuffle_Id_inv,
      erule orElse_inv, assumption, erule (1) parseCycle_Id_inv, erule (1) parseOnce_Only_Id_inv)

lemma parseExpression_inv:
  "parseExpression input st = (r, st') \<Longrightarrow> state_inv input st \<Longrightarrow> state_inv input st'"
  by (auto simp add: parseExpression_def Let_def class_loop_inv split: prod.splits bool.splits
        dest: match_class_inv)

lemma parseCondition_inv:
  "parseCondition input st = (r, st') \<Longrightarrow> state_inv input st \<Longrightarrow> state_inv input st'"
  by (auto simp add: parseCondition_def Let_def state_inv_currPos state_inv_le
        split: prod.splits bool.splits res.splits
        dest!: parseExpression_inv match_char_inv parseWhitespace_inv)

lemma text_rules_inv:
  "parseText input st = (r, st') \<Longrightarrow> state_inv input st \<Longrightarrow> state_inv input st'"
  "parseInlineText input st = (r, st') \<Longrightarrow> state_inv input st \<Longrightarrow> state_inv input st'"
  "parseInlineMultilineText input st = (r, st') \<Longrightarrow> state_inv input st \<Longrightarrow> state_inv input st'"
  by (auto simp add: parseText_eq parseInlineText_eq parseInlineMultilineText_eq
        state_inv_peg_fail state_inv_currPos run_of_bound state_inv_le split: if_splits)

lemma keepsD: "keeps input p \<Longrightarrow> p st = (r, st') \<Longrightarrow> state_inv input st \<Longrightarrow> state_inv input st'"
  unfolding keeps_def by blast

lemma keepsI: "(\<And>st r st'. state_inv input st \<Longrightarrow> p st = (r, st') \<Longrightarrow> state_inv input st') \<Longrightarrow> keeps input p"
  unfolding keeps_def by blast

lemma keeps_orElse: "keeps input p \<Longrightarrow> keeps input q \<Longrightarrow> keeps input (orElse p q)"
  by (rule keepsI) (auto simp add: orElse_def split: prod.splits res.splits dest: keepsD)

lemma keeps_optional: "keeps input p \<Longrightarrow> keeps input (optional p)"
  by (rule keepsI) (auto simp add: optional_def split: prod.splits res.splits dest: keepsD)

lemma keeps_basic:
  "keeps input (parseWhitespace input)" "keeps input (parseNewline input)"
  "keeps input (parseType input)" "keeps input (parseCondition input)"
  "keeps input (parseText input)" "keeps input (parseInlineText input)"
  "keeps input (parseInlineMultilineText input)"
  by (auto intro!: keepsI dest: parseWhitespace_inv parseNewline_inv parseType_inv
        parseCondition_inv text_rules_inv)

lemma many_inv:
  assumes "keeps input item"
  shows "many fuel item st s1 = (r, st') \<Longrightarrow> state_inv input st \<Longrightarrow> state_inv input st'"
proof (induction fuel arbitrary: st s1)
  case 0
  then show ?case by (simp add: many.simps)
next
  case (Suc fuel)
  then show ?case using assms
    by (auto simp add: many.simps split: prod.splits res.splits dest: keepsD)
qed

lemma keeps_many: "keeps input item \<Longrightarrow> keeps input (\<lambda>st. many fuel item st s1)"
  by (rule keepsI) (erule (2) many_inv)

lemma keeps_parseInlineSource:
  assumes k: "keeps input emb"
  shows "keeps input (parseInlineSource fuel emb input)"
  by (rule keepsI)
     (auto simp add: parseInlineSource_def Let_def split: prod.splits res.splits
        dest: keepsD [OF keeps_orElse [OF keeps_basic(6) k]]
              many_inv [OF keeps_orElse [OF keeps_basic(6) k]])

lemma keeps_parseInlineMultilineSource:
  assumes k: "keeps input emb"
  shows "keeps input (parseInlineMultilineSource fuel emb input)"
  by (rule keepsI)
     (auto simp add: parseInlineMultilineSource_def Let_def split: prod.splits res.splits
        dest: keepsD [OF keeps_orElse [OF keeps_basic(7) k]]
              many_inv [OF keeps_orElse [OF keeps_basic(7) k]])

lemma keeps_peg_c38: "keeps input (peg_c38 input arg)"
proof (rule keepsI)
  fix st :: "'a pstate" and r :: "(Argument, 'b) res" and st'
  assume i: "state_inv input st" and e: "peg_c38 input arg st = (r, st')"
  from location_of_ok [OF i] e show "state_inv input st'"
    by (auto simp add: peg_c38_def)
qed

lemma keeps_peg_c42: "keeps input (peg_c42 input cond val)"
proof (rule keepsI)
  fix st :: "'a pstate" and r :: "(Argument, 'b) res" and st'
  assume i: "state_inv input st" and e: "peg_c42 input cond val st = (r, st')"
  from location_of_ok [OF i] e show "state_inv input st'"
    by (auto simp add: peg_c42_def Let_def split: option.splits EmbedType.splits)
qed

lemma keeps_parseArgument:
  assumes k: "keeps input emb"
  shows "keeps input (parseArgument fuel emb input)"
  by (rule keepsI)
     (auto simp add: parseArgument_def Let_def split: prod.splits res.splits
        dest!: keepsD [OF keeps_parseInlineSource [OF k]] dest: keepsD [OF keeps_peg_c38])

lemma keeps_pipeArgument:
  assumes k: "keeps input emb"
  shows "keeps input (pipeArgument fuel emb input)"
  by (rule keepsI)
     (auto simp add: pipeArgument_def Let_def state_inv_currPos state_inv_le
        split: prod.splits res.splits bool.splits
        dest!: match_char_inv dest: keepsD [OF keeps_parseArgument [OF k]])

lemma keeps_parseArguments:
  assumes k: "keeps input emb"
  shows "keeps input (parseArguments fuel emb input)"
  by (rule keepsI)
     (auto simp add: parseArguments_def Let_def state_inv_currPos state_inv_le
        split: prod.splits res.splits
        dest!: keepsD [OF keeps_parseArgument [OF k]] dest: many_inv [OF keeps_pipeArgument [OF k]])

lemma keeps_call_processEmbed: "keeps input (call_processEmbed pe ty args ml)"
  by (rule keepsI) (auto simp add: call_processEmbed_def split: prod.splits sum.splits)

lemma keeps_parseInlineEmbed:
  assumes k: "keeps input emb"
  shows "keeps input (parseInlineEmbed fuel pe emb input)"
  by (rule keepsI)
     (auto simp add: parseInlineEmbed_def Let_def state_inv_currPos state_inv_le
        split: prod.splits res.splits bool.splits
        dest!: match_char_inv
               keepsD [OF keeps_optional [OF keeps_orElse [OF keeps_basic(4) keeps_basic(3)]]]
               keepsD [OF keeps_parseArguments [OF k]]
        dest: keepsD [OF keeps_call_processEmbed])

lemma keeps_parseMultilineArgument:
  assumes k: "keeps input emb"
  shows "keeps input (parseMultilineArgument fuel emb input)"
  by (rule keepsI)
     (auto simp add: parseMultilineArgument_def Let_def state_inv_currPos state_inv_le
        split: prod.splits res.splits
        dest!: keepsD [OF keeps_optional [OF keeps_basic(4)]]
               keepsD [OF keeps_optional [OF keeps_parseInlineMultilineSource [OF k]]]
        dest: keepsD [OF keeps_peg_c42])

lemma keeps_dashArgument:
  assumes k: "keeps input emb"
  shows "keeps input (dashArgument fuel emb input)"
  by (rule keepsI)
     (auto simp add: dashArgument_def Let_def state_inv_currPos state_inv_le
        split: prod.splits res.splits bool.splits
        dest!: match_char_inv parseWhitespace_inv
               keepsD [OF keeps_parseMultilineArgument [OF k]])

lemma keeps_parseMultiLineArguments:
  assumes k: "keeps input emb"
  shows "keeps input (parseMultiLineArguments fuel emb input)"
  by (rule keepsI)
     (auto simp add: parseMultiLineArguments_def Let_def state_inv_currPos state_inv_le
        split: prod.splits res.splits
        dest!: parseWhitespace_inv keepsD [OF keeps_dashArgument [OF k]]
        dest: many_inv [OF keeps_dashArgument [OF k]])

lemma keeps_parseMutliLineEmbed:
  assumes k: "keeps input emb"
  shows "keeps input (parseMutliLineEmbed fuel pe emb input)"
  by (rule keepsI)
     (auto simp add: parseMutliLineEmbed_def Let_def state_inv_currPos state_inv_le
        split: prod.splits res.splits bool.splits
        dest!: match_char_inv parseNewline_inv
               keepsD [OF keeps_optional [OF keeps_basic(3)]]
               keepsD [OF keeps_parseMultiLineArguments [OF k]]
        dest: keepsD [OF keeps_call_processEmbed])

lemma keeps_parseEmbed: "keeps input (parseEmbed fuel pe input)"
proof (induction fuel)
  case 0
  show ?case by (rule keepsI) (simp add: parseEmbed.simps)
next
  case (Suc fuel)
  show ?case
    unfolding parseEmbed.simps
    by (rule keeps_orElse [OF keeps_parseInlineEmbed [OF Suc] keeps_parseMutliLineEmbed [OF Suc]])
qed


lemma class_loop_step:
  "currPos st < length input \<Longrightarrow> cls (input ! currPos st) \<Longrightarrow>
   class_loop cls e input st = class_loop cls e input (st\<lparr>currPos := currPos st + 1\<rparr>)"
  by (subst class_loop.simps) (simp add: match_class_def)

lemma class_loop_stop:
  "\<not> (currPos st < length input \<and> cls (input ! currPos st)) \<Longrightarrow>
   class_loop cls e input st = peg_fail e st"
  by (subst class_loop.simps) (auto simp add: match_class_def)

lemma many_unfold:
  "0 < fuel \<Longrightarrow> many fuel item st s1 =
     (case item st of
        (OK s2, st1) \<Rightarrow> many (fuel - 1) item st1 (s1 @ [s2])
      | (FAILED, st1) \<Rightarrow> (OK s1, st1)
      | (ABORT a, st1) \<Rightarrow> (ABORT a, st1))"
  by (cases fuel) (simp_all add: many.simps cong: res.case_cong prod.case_cong)

lemma parseEmbed_unfold:
  "0 < stack \<Longrightarrow> parseEmbed stack pe input st =
     orElse (parseInlineEmbed (Suc (length input)) pe (parseEmbed (stack - 1) pe input) input)
            (parseMutliLineEmbed (Suc (length input)) pe (parseEmbed (stack - 1) pe input) input) st"
  by (cases stack) (simp_all add: parseEmbed.simps)

lemma prev_cached_unfold:
  "prev_cached cache p =
     (case cache p of Some d \<Rightarrow> Some (p, d)
      | None \<Rightarrow> (if p = 0 then None else prev_cached cache (p - 1)))"
  by (cases p) (simp_all split: option.splits)

lemmas peg_consts = peg_c2_def peg_c4_def peg_c6_def peg_c7_def peg_c10_def peg_c12_def
  peg_c15_def peg_c18_def peg_c20_def peg_c23_def peg_c25_def peg_c28_def peg_c30_def
  peg_c33_def peg_c35_def peg_c36_def peg_c40_def peg_c44_def peg_c46_def peg_c47_def
  peg_c49_def peg_c50_def peg_c51_def peg_c52_def

lemmas rule_defs = parseWhitespace_def parseNewline_def parseStopping_Id_def
  parseShuffle_Id_def parseCycle_Id_def parseOnce_Only_Id_def orElse_def parseType_def
  parseExpression_def parseCondition_def parseInlineMultilineText_def parseInlineText_def
  parseText_def parseInlineSource_def parseInlineMultilineSource_def peg_c38_def peg_c42_def
  parseArgument_def pipeArgument_def parseArguments_def optional_def call_processEmbed_def
  parseInlineEmbed_def parseMultilineArgument_def dashArgument_def
  parseMultiLineArguments_def parseMutliLineEmbed_def parseSource_def raise_failure_def
  peg_parse_from_def peg_parse_def initial_state_def peg_c0_def match_char_def match_str_def
  match_class_def peg_fail_def text_of_def location_of_def substring_def computeLocation_def
  computePosDetails_def trim_def js_space_def

lemmas run_parser = rule_defs peg_consts Let_def class_loop_step class_loop_stop walk_step
  walk_stop many_unfold parseEmbed_unfold prev_cached_unfold

lemma state_inv_initial: "state_inv input (initial_state h)"
  by (simp add: state_inv_def fail_inv_def cache_ok_def initial_state_def walk_stop)

lemma many_not_FAILED: "fst (many fuel item st s1) \<noteq> FAILED"
  by (induction fuel arbitrary: st s1) (auto simp add: many.simps split: prod.splits res.splits)


lemma raise_failure_ok:
  assumes "state_inv input st"
  shows "\<exists>cache'. raise_failure input st =
           (Raises \<lparr>expected = maxFailExpected st,
                    found = (if maxFailPos st < length input then Some (input ! maxFailPos st) else None),
                    location = span_of input (maxFailPos st)
                      (if maxFailPos st < length input then maxFailPos st + 1 else maxFailPos st)\<rparr>,
            st\<lparr>posDetailsCache := cache'\<rparr>)"
proof -
  have "cache_ok input (posDetailsCache st)" using assms by (simp add: state_inv_def)
  from computeLocation_ok [OF this, of "maxFailPos st"
      "if maxFailPos st < length input then maxFailPos st + 1 else maxFailPos st"]
  show ?thesis by (auto simp add: raise_failure_def Let_def)
qed






lemma inline_stopping_word:
  "host (snd (peg_parse record_call ''{stopping: A|B}'' [])) =
     [(Some (ExprEmbedType ''stopping'' ''stopping: ''), [''A'', ''B''], False)]"
  by (simp add: run_parser record_call_def cong: prod.case_cong_weak)

lemma inline_shuffle_word:
  "host (snd (peg_parse record_call ''{shuffle: A|B}'' [])) =
     [(Some (ExprEmbedType ''shuffle'' ''shuffle: ''), [''A'', ''B''], False)]"
  by (simp add: run_parser record_call_def cong: prod.case_cong_weak)

lemma inline_cycle_word:
  "host (snd (peg_parse record_call ''{cycle: A|B}'' [])) =
     [(Some (ExprEmbedType ''cycle'' ''cycle: ''), [''A'', ''B''], False)]"
  by (simp add: run_parser record_call_def cong: prod.case_cong_weak)

lemma inline_once_word:
  "host (snd (peg_parse record_call ''{once: A|B}'' [])) =
     [(Some (ExprEmbedType ''once'' ''once: ''), [''A'', ''B''], False)]"
  by (simp add: run_parser record_call_def cong: prod.case_cong_weak)

lemma multiline_stopping_word:
  "host (snd (peg_parse record_call (''{stopping:'' @ [CHR 0x0A] @ ''- A'' @ [CHR 0x0A] @ ''- B'' @ [CHR 0x0A] @ ''}'') [])) =
     [(Some (SequenceEmbedType Stopping), [''A'', ''B''], True)]"
  by (simp add: run_parser record_call_def cong: prod.case_cong_weak)

lemma inline_shuffle_symbol:
  "host (snd (peg_parse record_call ''{~A|B}'' [])) =
     [(Some (SequenceEmbedType Shuffle), [''A'', ''B''], False)]"
  by (simp add: run_parser record_call_def cong: prod.case_cong_weak)

lemma inline_shuffle_symbol_colon:
  "host (snd (peg_parse record_call ''{~A: x|B}'' [])) =
     [(Some (ExprEmbedType ''~A'' ''~A: ''), [''x'', ''B''], False)]"
  by (simp add: run_parser record_call_def cong: prod.case_cong_weak)

text \<open>
  Claim C5, at concrete inputs. In an inline embed the rule \<open>Condition\<close> is
  tried before \<open>Type\<close>, and it matches each of the words \<open>stopping:\<close>,
  \<open>shuffle:\<close>, \<open>cycle:\<close> and \<open>once:\<close>: \<open>processEmbed\<close> is called with a
  condition whose expression is the word, not with the sequence type. The same
  happens to a symbol marker when the first argument contains a colon. The
  symbol alone, and the word in a multi-line embed, give the sequence type.
\<close>

theorem inline_word_markers_parse_as_conditions:
  "host (snd (peg_parse record_call ''{stopping: A|B}'' [])) =
     [(Some (ExprEmbedType ''stopping'' ''stopping: ''), [''A'', ''B''], False)]
   \<and> host (snd (peg_parse record_call ''{shuffle: A|B}'' [])) =
     [(Some (ExprEmbedType ''shuffle'' ''shuffle: ''), [''A'', ''B''], False)]
   \<and> host (snd (peg_parse record_call ''{cycle: A|B}'' [])) =
     [(Some (ExprEmbedType ''cycle'' ''cycle: ''), [''A'', ''B''], False)]
   \<and> host (snd (peg_parse record_call ''{once: A|B}'' [])) =
     [(Some (ExprEmbedType ''once'' ''once: ''), [''A'', ''B''], False)]
   \<and> host (snd (peg_parse record_call ''{~A: x|B}'' [])) =
     [(Some (ExprEmbedType ''~A'' ''~A: ''), [''x'', ''B''], False)]
   \<and> host (snd (peg_parse record_call ''{~A|B}'' [])) =
     [(Some (SequenceEmbedType Shuffle), [''A'', ''B''], False)]
   \<and> host (snd (peg_parse record_call (''{stopping:'' @ [CHR 0x0A] @ ''- A'' @ [CHR 0x0A] @ ''- B'' @ [CHR 0x0A] @ ''}'') [])) =
     [(Some (SequenceEmbedType Stopping), [''A'', ''B''], True)]"
  using inline_stopping_word inline_shuffle_word inline_cycle_word inline_once_word
    inline_shuffle_symbol_colon inline_shuffle_symbol multiline_stopping_word
  by simp














section \<open>Properties of the selection engine\<close>

lemma eligible_all_false: "all_guards_false ev bs \<Longrightarrow> eligible ev i bs = Inr []"
  by (induction bs arbitrary: i) (auto simp add: all_guards_false_def split: option.splits)

lemma rounds_unfold:
  "0 < n \<Longrightarrow> rounds n ev fresh d sr =
     (case list_round ev fresh d sr of
        Inl e \<Rightarrow> []
      | Inr (out, sr1) \<Rightarrow> out # rounds (n - 1) ev fresh d sr1)"
  by (cases n) (simp_all cong: sum.case_cong prod.case_cong)

lemma rounds_examples:
  "rounds 5 (\<lambda>g. None) (\<lambda>el avoid r. (el, r))
     \<lparr>kind = Stopping, branches = [\<lparr>guard = None, content = ''A''\<rparr>,
        \<lparr>guard = None, content = ''B''\<rparr>, \<lparr>guard = None, content = ''C''\<rparr>], identity = ''d''\<rparr>
     (Map.empty, ()) = [''A'', ''B'', ''C'', ''C'', ''C'']"
  "rounds 5 (\<lambda>g. None) (\<lambda>el avoid r. (el, r))
     \<lparr>kind = Cycle, branches = [\<lparr>guard = None, content = ''A''\<rparr>,
        \<lparr>guard = None, content = ''B''\<rparr>, \<lparr>guard = None, content = ''C''\<rparr>], identity = ''d''\<rparr>
     (Map.empty, ()) = [''A'', ''B'', ''C'', ''A'', ''B'']"
  "rounds 4 (\<lambda>g. None) (\<lambda>el avoid r. (el, r))
     \<lparr>kind = OnlyOnce, branches = [\<lparr>guard = None, content = ''A''\<rparr>,
        \<lparr>guard = None, content = ''B''\<rparr>, \<lparr>guard = None, content = ''C''\<rparr>], identity = ''d''\<rparr>
     (Map.empty, ()) = [''A'', ''B'', ''C'', []]"
  by (simp_all add: rounds_unfold list_round_def select_def new_state_def del: rounds.simps(2))

text \<open>
  Claim C2. In a round of a List directive in which no branch is eligible --
  every branch's guard evaluates false -- the output is the empty string and the
  store is returned as it was, so the directive's counter, order and cursor are
  what they were; a second such round gives the same again.
\<close>

theorem list_round_nothing_eligible:
  assumes "branches d \<noteq> []" and "all_guards_false ev (branches d)"
  shows "eligible ev 0 (branches d) = Inr []
         \<and> list_round ev fresh d (store, r) = Inr ([], store, r)
         \<and> (case list_round ev fresh d (store, r) of
               Inl e \<Rightarrow> False
             | Inr (out1, sr1) \<Rightarrow> list_round ev fresh d sr1 = Inr ([], store, r))"
  using assms by (simp add: list_round_def eligible_all_false)

theorem list_round_nothing_eligible_witness:
  "branches \<lparr>kind = Shuffle, branches = [\<lparr>guard = Some ''x'', content = ''A''\<rparr>,
        \<lparr>guard = Some ''y'', content = ''B''\<rparr>], identity = ''d1''\<rparr> \<noteq> []
   \<and> all_guards_false (\<lambda>g. Some False)
        (branches \<lparr>kind = Shuffle, branches = [\<lparr>guard = Some ''x'', content = ''A''\<rparr>,
           \<lparr>guard = Some ''y'', content = ''B''\<rparr>], identity = ''d1''\<rparr>)
   \<and> list_round (\<lambda>g. Some False) (\<lambda>el avoid r. (el, r))
        \<lparr>kind = Shuffle, branches = [\<lparr>guard = Some ''x'', content = ''A''\<rparr>,
           \<lparr>guard = Some ''y'', content = ''B''\<rparr>], identity = ''d1''\<rparr>
        ([''d1'' \<mapsto> \<lparr>counter = 2, order = [1, 0], cursor = 1\<rparr>], ())
       = Inr ([], [''d1'' \<mapsto> \<lparr>counter = 2, order = [1, 0], cursor = 1\<rparr>], ())"
proof -
  let ?d = "\<lparr>kind = Shuffle, branches = [\<lparr>guard = Some ''x'', content = ''A''\<rparr>,
           \<lparr>guard = Some ''y'', content = ''B''\<rparr>], identity = ''d1''\<rparr>"
  have a: "branches ?d \<noteq> []" by simp
  have b: "all_guards_false (\<lambda>g. Some False) (branches ?d)" by (simp add: all_guards_false_def)
  from list_round_nothing_eligible [OF a b, of "\<lambda>el avoid r. (el, r)"
      "[''d1'' \<mapsto> \<lparr>counter = 2, order = [1, 0], cursor = 1\<rparr>]" "()"] a b
  show ?thesis by blast
qed

section \<open>Nested embeds\<close>

lemma parseExpression_fails:
  assumes "\<not> (currPos st < length input \<and> peg_c35 (input ! currPos st))"
  shows "parseExpression input st = (FAILED :: (string, 'x) res, peg_fail peg_c36 st)"
  using assms by (auto simp add: parseExpression_def match_class_def Let_def)

lemma parseCondition_fails:
  assumes "\<not> (currPos st < length input \<and> peg_c35 (input ! currPos st))"
  shows "parseCondition input st =
           (FAILED :: (EmbedType, 'x) res, (peg_fail peg_c36 st)\<lparr>currPos := currPos st\<rparr>)"
  using parseExpression_fails [OF assms, where ?'x = 'x] by (simp add: parseCondition_def Let_def)

lemma match_str_miss:
  assumes "\<not> (currPos st < length input \<and> input ! currPos st = c)"
  shows "match_str (c # cs) e input st = (False, peg_fail e st)"
proof -
  have "take (length (c # cs)) (drop (currPos st) input) \<noteq> c # cs"
  proof (cases "currPos st < length input")
    case True
    then have "drop (currPos st) input = input ! currPos st # drop (Suc (currPos st)) input"
      by (simp add: Cons_nth_drop_Suc)
    then show ?thesis using assms True by simp
  next
    case False
    then show ?thesis by simp
  qed
  then show ?thesis by (simp add: match_str_def)
qed

lemma parseType_fails:
  assumes "\<not> (currPos st < length input
              \<and> input ! currPos st \<in> {CHR ''s'', CHR ''~'', CHR ''&'', CHR ''!'', CHR ''c'', CHR ''o''})"
  shows "\<exists>st'. parseType input st = (FAILED, st') \<and> currPos st' = currPos st"
proof -
  have m: "\<And>c cs e (s :: 'a pstate). currPos s = currPos st \<Longrightarrow>
             c \<in> {CHR ''s'', CHR ''~'', CHR ''&'', CHR ''!'', CHR ''c'', CHR ''o''} \<Longrightarrow>
             match_str (c # cs) e input s = (False, peg_fail e s)
             \<and> match_char c e input s = (False, peg_fail e s)"
    using assms by (intro conjI match_str_miss match_char_miss) auto
  show ?thesis
    by (simp add: parseType_def orElse_def parseStopping_Id_def parseShuffle_Id_def
          parseCycle_Id_def parseOnce_Only_Id_def Let_def m)
qed

lemma parseInlineText_fails:
  assumes "\<not> (currPos st < length input \<and> peg_c49 (input ! currPos st))"
  shows "parseInlineText input st = (FAILED, peg_fail peg_c50 st)"
  using assms by (simp add: parseInlineText_eq run_of_stop)

lemma peg_c38_ok:
  assumes "state_inv input st"
  shows "\<exists>a st'. peg_c38 input arg st = (OK a, st') \<and> currPos st' = currPos st"
  using location_of_ok [OF assms] by (auto simp add: peg_c38_def)

lemma many_stop:
  assumes "item st = (FAILED, st')"
  shows "many (Suc fuel) item st s1 = (OK s1, st')"
  using assms by (simp add: many.simps)

lemma many_one:
  assumes "item st = (OK v, st1)" and "many fuel item st1 (s1 @ [v]) = r"
  shows "many (Suc fuel) item st s1 = r"
  using assms by (simp add: many.simps)

lemma call_processEmbed_ok:
  assumes "never_throws pe"
  shows "\<exists>v st'. call_processEmbed pe ty args ml st = (OK v, st') \<and> currPos st' = currPos st
            \<and> v \<in> outputs pe"
proof -
  from assms obtain v h1 where "pe ty args ml (host st) = (Inr v, h1)"
    unfolding never_throws_def by blast
  then show ?thesis unfolding call_processEmbed_def outputs_def by (simp, blast)
qed

lemma brace_classes:
  assumes "c = CHR ''{'' \<or> c = CHR ''}''"
  shows "\<not> peg_c35 c" and "\<not> peg_c49 c"
    and "c \<notin> {CHR ''s'', CHR ''~'', CHR ''&'', CHR ''!'', CHR ''c'', CHR ''o''}"
    and "c \<noteq> CHR ''|''"
  using assms by (auto simp add: peg_c35_def peg_c49_def)

lemma arguments_around:
  fixes emb :: "(string, 'x, 's) rule"
  assumes inv: "state_inv input st" and k: "keeps input emb"
    and inner: "\<And>st1. state_inv input st1 \<Longrightarrow> currPos st1 = currPos st \<Longrightarrow>
                  \<exists>r st2. emb st1 = (r, st2) \<and> (r = FAILED \<or> (\<exists>v. r = OK v)) \<and> currPos st2 = q"
    and after: "\<And>st1. state_inv input st1 \<Longrightarrow> currPos st1 = q \<Longrightarrow>
                  \<exists>st2. emb st1 = (FAILED, st2) \<and> currPos st2 = q"
    and here: "\<not> (currPos st < length input \<and> peg_c49 (input ! currPos st))"
    and close: "q < length input" "input ! q = CHR ''}''"
  shows "\<exists>a st'. parseArguments (Suc fuel) emb input st = (OK [a], st') \<and> currPos st' = q
            \<and> state_inv input st'"
proof -
  let ?item = "orElse (parseInlineText input) emb"
  have cq: "\<not> peg_c49 (input ! q)" "input ! q \<noteq> CHR ''|''"
    using close(2) by (simp_all add: brace_classes)
  \<comment> \<open>the first item of the argument\<close>
  have t: "parseInlineText input st = (FAILED :: (string, 'x) res, peg_fail peg_c50 st)"
    using here by (rule parseInlineText_fails)
  have i1: "state_inv input (peg_fail peg_c50 st)" using inv by (rule state_inv_peg_fail)
  from inner [OF i1] obtain r st2 where e: "emb (peg_fail peg_c50 st) = (r, st2)"
    and rr: "r = FAILED \<or> (\<exists>v. r = OK v)" and p2: "currPos st2 = q"
    by auto
  have i2: "state_inv input st2" using keepsD [OF k e i1] .
  have item1: "?item st = (r, st2)" using t e rr by (auto simp add: orElse_def)
  \<comment> \<open>the argument\<close>
  have "\<exists>a st5. parseArgument (Suc fuel) emb input st = (OK a, st5) \<and> currPos st5 = q"
  proof (cases r)
    case FAILED
    have "state_inv input (st2\<lparr>savedPos := currPos st\<rparr>)" using i2 by simp
    from peg_c38_ok [OF this, of None, where ?'b = 'x] obtain a st5
      where "peg_c38 input None (st2\<lparr>savedPos := currPos st\<rparr>) = (OK a :: (Argument, 'x) res, st5)"
        and "currPos st5 = currPos (st2\<lparr>savedPos := currPos st\<rparr>)"
      by blast
    then show ?thesis using item1 FAILED p2
      by (auto simp add: parseArgument_def parseInlineSource_def Let_def)
  next
    case (OK v1)
    have t2: "parseInlineText input st2 = (FAILED :: (string, 'x) res, peg_fail peg_c50 st2)"
      using cq(1) p2 by (intro parseInlineText_fails) simp
    have i3: "state_inv input (peg_fail peg_c50 st2)" using i2 by (rule state_inv_peg_fail)
    from after [OF i3] p2 obtain st4 where e4: "emb (peg_fail peg_c50 st2) = (FAILED, st4)"
      and p4: "currPos st4 = q"
      by auto
    have i4: "state_inv input st4" using keepsD [OF k e4 i3] .
    have item2: "?item st2 = (FAILED, st4)" using t2 e4 by (simp add: orElse_def)
    have m: "many (Suc fuel) ?item st2 [v1] = (OK [v1], st4)"
      using item2 by (rule many_stop)
    have "state_inv input (st4\<lparr>savedPos := currPos st\<rparr>)" using i4 by simp
    from peg_c38_ok [OF this, of "Some (peg_c0 [v1])", where ?'b = 'x] obtain a st5
      where "peg_c38 input (Some (peg_c0 [v1])) (st4\<lparr>savedPos := currPos st\<rparr>)
               = (OK a :: (Argument, 'x) res, st5)"
        and "currPos st5 = currPos (st4\<lparr>savedPos := currPos st\<rparr>)"
      by blast
    then show ?thesis using item1 OK m p4
      by (auto simp add: parseArgument_def parseInlineSource_def Let_def)
  next
    case (ABORT x)
    then show ?thesis using rr by simp
  qed
  then obtain a st5 where pa: "parseArgument (Suc fuel) emb input st = (OK a, st5)"
    and p5: "currPos st5 = q"
    by blast
  have i5: "state_inv input st5" using keepsD [OF keeps_parseArgument [OF k] pa inv] .
  \<comment> \<open>no pipe follows\<close>
  have "match_char (CHR ''|'') peg_c40 input st5 = (False, peg_fail peg_c40 st5)"
    using cq(2) p5 by (intro match_char_miss) simp
  then have pipe: "pipeArgument (Suc fuel) emb input st5
                     = (FAILED, (peg_fail peg_c40 st5)\<lparr>currPos := currPos st5\<rparr>)"
    by (simp add: pipeArgument_def Let_def)
  have m2: "many (Suc fuel) (pipeArgument (Suc fuel) emb input) st5 []
              = (OK [], (peg_fail peg_c40 st5)\<lparr>currPos := currPos st5\<rparr>)"
    using pipe by (rule many_stop)
  have res: "parseArguments (Suc fuel) emb input st
          = (OK [a], (peg_fail peg_c40 st5)\<lparr>currPos := currPos st5, savedPos := currPos st\<rparr>)"
    using pa m2 by (simp add: parseArguments_def Let_def)
  have "state_inv input ((peg_fail peg_c40 st5)\<lparr>currPos := currPos st5, savedPos := currPos st\<rparr>)"
    using keepsD [OF keeps_parseArguments [OF k] res inv] .
  then show ?thesis using res p5 by simp
qed

lemma inline_embed_around:
  fixes emb :: "(string, 'x, 's) rule" and pe :: "('x, 's) processEmbed"
  assumes nt: "never_throws pe" and inv: "state_inv input st" and k: "keeps input emb"
    and at_open: "currPos st < length input" "input ! currPos st = CHR ''{''"
    and next_brace: "Suc (currPos st) < length input"
      "input ! Suc (currPos st) = CHR ''{'' \<or> input ! Suc (currPos st) = CHR ''}''"
    and inner: "\<And>st1. state_inv input st1 \<Longrightarrow> currPos st1 = Suc (currPos st) \<Longrightarrow>
                  \<exists>r st2. emb st1 = (r, st2) \<and> (r = FAILED \<or> (\<exists>v. r = OK v)) \<and> currPos st2 = q"
    and after: "\<And>st1. state_inv input st1 \<Longrightarrow> currPos st1 = q \<Longrightarrow>
                  \<exists>st2. emb st1 = (FAILED, st2) \<and> currPos st2 = q"
    and close: "q < length input" "input ! q = CHR ''}''"
  shows "\<exists>v st'. parseInlineEmbed (Suc fuel) pe emb input st = (OK v, st') \<and> currPos st' = Suc q
            \<and> v \<in> outputs pe"
proof -
  let ?st1 = "st\<lparr>currPos := currPos st + 1\<rparr>"
  have m1: "match_char (CHR ''{'') peg_c2 input st = (True, ?st1)"
    using at_open by (rule match_char_hit)
  have i1: "state_inv input ?st1" using match_char_inv [OF m1 inv] .
  note bc = brace_classes [OF next_brace(2)]
  \<comment> \<open>neither a condition nor a type\<close>
  let ?stc = "(peg_fail peg_c36 ?st1)\<lparr>currPos := currPos ?st1\<rparr>"
  have c: "parseCondition input ?st1 = (FAILED :: (EmbedType, 'x) res, ?stc)"
    using bc(1) by (intro parseCondition_fails) simp
  have "\<exists>st2. parseType input ?stc = (FAILED :: (EmbedType, 'x) res, st2) \<and> currPos st2 = currPos ?stc"
    using bc(3) by (intro parseType_fails) simp
  then obtain st2 where ty: "parseType input ?stc = (FAILED :: (EmbedType, 'x) res, st2)"
    and p2: "currPos st2 = Suc (currPos st)"
    by auto
  have o: "optional (orElse (parseCondition input) (parseType input)) ?st1
             = (OK None :: (EmbedType option, 'x) res, st2)"
    using c ty by (simp add: optional_def orElse_def)
  have i2: "state_inv input st2"
    using keepsD [OF keeps_optional [OF keeps_orElse [OF keeps_basic(4) keeps_basic(3)]] o i1] .
  \<comment> \<open>the one argument\<close>
  have "\<exists>a st3. parseArguments (Suc fuel) emb input st2 = (OK [a], st3) \<and> currPos st3 = q
          \<and> state_inv input st3"
    using i2 k inner after bc(2) close p2 by (intro arguments_around) simp_all
  then obtain a st3 where args: "parseArguments (Suc fuel) emb input st2 = (OK [a], st3)"
    and p3: "currPos st3 = q" and i3: "state_inv input st3"
    by blast
  \<comment> \<open>the closing brace and the call\<close>
  let ?st4 = "st3\<lparr>currPos := currPos st3 + 1\<rparr>"
  have m4: "match_char (CHR ''}'') peg_c4 input st3 = (True, ?st4)"
    using close p3 by (intro match_char_hit) simp_all
  from call_processEmbed_ok [OF nt, of None "[a]" False "?st4\<lparr>savedPos := currPos st\<rparr>"]
  obtain v st5 where call: "call_processEmbed pe None [a] False (?st4\<lparr>savedPos := currPos st\<rparr>) = (OK v, st5)"
    and p5: "currPos st5 = Suc q" and v: "v \<in> outputs pe"
    using p3 by auto
  have "parseInlineEmbed (Suc fuel) pe emb input st = (OK v, st5)"
    using m1 o args m4 call by (simp add: parseInlineEmbed_def Let_def)
  then show ?thesis using p5 v by blast
qed

lemma nest_length [simp]: "length (nest d) = 2 * d"
  by (simp add: nest_def)

lemma nest_open: "i < d \<Longrightarrow> nest d ! i = CHR ''{''"
  by (simp add: nest_def nth_append)

lemma nest_close: "d \<le> i \<Longrightarrow> i < 2 * d \<Longrightarrow> nest d ! i = CHR ''}''"
  by (simp add: nest_def nth_append)

lemma parseEmbed_fails_at_close:
  assumes "currPos st = i" and "d \<le> i"
  shows "\<exists>st2. parseEmbed (Suc m) pe (nest d) st = (FAILED, st2) \<and> currPos st2 = i"
proof -
  have "\<not> (currPos st < length (nest d) \<and> nest d ! currPos st = CHR ''{'')"
    using assms by (cases "i < 2 * d") (simp_all add: nest_close)
  from parseEmbed_off_brace [OF this, of m pe] assms(1) show ?thesis by simp
qed

lemma parseEmbed_nest:
  fixes pe :: "('x, 's) processEmbed"
  assumes nt: "never_throws pe"
  shows "0 < k \<Longrightarrow> k \<le> d \<Longrightarrow> k < n \<Longrightarrow> state_inv (nest d) st \<Longrightarrow> currPos st = d - k \<Longrightarrow>
         \<exists>v st'. parseEmbed n pe (nest d) st = (OK v, st') \<and> currPos st' = d + k \<and> v \<in> outputs pe"
proof (induction k arbitrary: n st)
  case 0
  then show ?case by simp
next
  case (Suc j)
  from Suc.prems(3) obtain m where n: "n = Suc (Suc m)" and jm: "j < Suc m"
    by (cases n; cases "n - 1") auto
  let ?emb = "parseEmbed (Suc m) pe (nest d)"
  have p: "currPos st = d - Suc j" and pd: "d - Suc j < d" and sp: "Suc (d - Suc j) = d - j"
    using Suc.prems by simp_all
  have inner: "\<exists>r st2. ?emb st1 = (r, st2) \<and> (r = FAILED \<or> (\<exists>v. r = OK v)) \<and> currPos st2 = d + j"
    if "state_inv (nest d) st1" and "currPos st1 = Suc (currPos st)" for st1
  proof (cases "j = 0")
    case True
    from parseEmbed_fails_at_close [of st1 d d m pe] that(2) p sp True
    show ?thesis by auto
  next
    case False
    from Suc.IH [of "Suc m" st1] False Suc.prems(2) jm that p sp
    show ?thesis by auto
  qed
  have after: "\<exists>st2. ?emb st1 = (FAILED, st2) \<and> currPos st2 = d + j"
    if "state_inv (nest d) st1" and "currPos st1 = d + j" for st1
    using parseEmbed_fails_at_close [of st1 "d + j" d m pe] that(2) by simp
  have nb: "nest d ! Suc (currPos st) = CHR ''{'' \<or> nest d ! Suc (currPos st) = CHR ''}''"
  proof (cases "j = 0")
    case True
    then show ?thesis using p sp Suc.prems(2) by (simp add: nest_close)
  next
    case False
    then show ?thesis using p sp Suc.prems(2) by (simp add: nest_open)
  qed
  have "\<exists>v st'. parseInlineEmbed (Suc (length (nest d))) pe ?emb (nest d) st = (OK v, st')
          \<and> currPos st' = Suc (d + j) \<and> v \<in> outputs pe"
  proof (rule inline_embed_around [OF nt Suc.prems(4) keeps_parseEmbed])
    show "currPos st < length (nest d)" using p pd by simp
    show "nest d ! currPos st = CHR ''{''" using p pd by (simp add: nest_open)
    show "Suc (currPos st) < length (nest d)" using p sp Suc.prems(2) by simp
    show "nest d ! Suc (currPos st) = CHR ''{'' \<or> nest d ! Suc (currPos st) = CHR ''}''" by (rule nb)
    show "\<And>st1. state_inv (nest d) st1 \<Longrightarrow> currPos st1 = Suc (currPos st) \<Longrightarrow>
            \<exists>r st2. ?emb st1 = (r, st2) \<and> (r = FAILED \<or> (\<exists>v. r = OK v)) \<and> currPos st2 = d + j"
      by (rule inner)
    show "\<And>st1. state_inv (nest d) st1 \<Longrightarrow> currPos st1 = d + j \<Longrightarrow>
            \<exists>st2. ?emb st1 = (FAILED, st2) \<and> currPos st2 = d + j"
      by (rule after)
    show "d + j < length (nest d)" using Suc.prems(2) by simp
    show "nest d ! (d + j) = CHR ''}''" using Suc.prems(2) by (simp add: nest_close)
  qed
  then show ?case
    unfolding n parseEmbed.simps(2) [of "Suc m"] by (auto simp add: orElse_def)
qed

lemma never_throws_record_call: "never_throws record_call"
  by (simp add: never_throws_def record_call_def)

lemma outputs_record_call: "outputs record_call = {[]}"
  by (auto simp add: outputs_def record_call_def)

section \<open>Termination of the parser\<close>

text \<open>The recursion of the generated parser is bounded by the input: every rule that matches
  inside an embed has consumed its opening brace, so an embed nested \<open>n\<close> deep starts at
  position \<open>n\<close> or later. The fuel \<open>Suc (length input)\<close> that \<^const>\<open>peg_parse\<close> gives to
  \<^const>\<open>parseSource\<close> is therefore never used up, and a parse ends in one of three ways: it
  returns a string, it raises a syntax error, or \<open>processEmbed\<close> throws.\<close>

lemma stepsI:
  assumes "\<And>st r st'. state_inv input st \<Longrightarrow> length input < currPos st + b \<Longrightarrow> p st = (r, st') \<Longrightarrow>
        post input strict st r st'"
  shows "steps input b strict p"
  using assms unfolding steps_def by blast

lemma stepsD:
  assumes "steps input b strict p" and "p st = (r, st')" and "state_inv input st"
    and "length input < currPos st + b"
  shows "post input strict st r st'"
  using assms unfolding steps_def by blast

lemma steps_weaken: "steps input b True p \<Longrightarrow> steps input b s p"
  unfolding steps_def post_def by blast

lemma steps_mono:
  assumes "steps input b s p" and "c \<le> b"
  shows "steps input c s p"
proof (rule stepsI)
  fix st r st'
  assume i: "state_inv input st" and l: "length input < currPos st + c" and e: "p st = (r, st')"
  have "length input < currPos st + b" using l assms(2) by simp
  from stepsD [OF assms(1) e i this]
  show "post input s st r st'" .
qed

lemma match_char_pos:
  "match_char c e input st = (b, st') \<Longrightarrow>
     (b \<longrightarrow> currPos st' = Suc (currPos st)) \<and> (\<not> b \<longrightarrow> currPos st' = currPos st)"
  by (auto simp add: match_char_def split: if_splits)

lemma match_char_step:
  "match_char c e input st = (b, st') \<Longrightarrow> state_inv input st \<Longrightarrow>
     state_inv input st'
     \<and> (b \<longrightarrow> currPos st' = Suc (currPos st)) \<and> (\<not> b \<longrightarrow> currPos st' = currPos st)"
  using match_char_inv match_char_pos by blast

lemma match_str_step:
  "match_str lit e input st = (b, st') \<Longrightarrow> state_inv input st \<Longrightarrow>
     state_inv input st'
     \<and> (b \<longrightarrow> currPos st' = currPos st + length lit) \<and> (\<not> b \<longrightarrow> currPos st' = currPos st)"
  using match_str_inv [of lit e input st b st']
  by (auto simp add: match_str_def split: if_splits)

lemma class_loop_pos: "currPos st \<le> currPos (class_loop cls e input st)"
  by (simp add: class_loop_eq)

lemma steps_parseWhitespace: "steps input b False (parseWhitespace input)"
  by (rule stepsI) (auto simp add: post_def parseWhitespace_def Let_def class_loop_inv class_loop_pos)

lemma parseWhitespace_OK: "fst (parseWhitespace input st) = OK ()"
  by (simp add: parseWhitespace_def Let_def)

lemma steps_parseNewline: "steps input b True (parseNewline input)"
  by (rule stepsI)
     (auto simp add: post_def parseNewline_def Let_def state_inv_currPos state_inv_le
        split: prod.splits bool.splits dest!: match_char_step)

lemma steps_ids:
  "steps input b True (parseStopping_Id input)" "steps input b True (parseShuffle_Id input)"
  "steps input b True (parseCycle_Id input)" "steps input b True (parseOnce_Only_Id input)"
  by (rule stepsI,
      auto simp add: post_def parseStopping_Id_def parseShuffle_Id_def parseCycle_Id_def
        parseOnce_Only_Id_def Let_def
        split: prod.splits bool.splits dest!: match_char_step match_str_step)+

lemma steps_orElse:
  assumes "steps input b s p" and "steps input b s q"
  shows "steps input b s (orElse p q)"
proof (rule stepsI)
  fix st r st'
  assume i: "state_inv input st" and l: "length input < currPos st + b"
    and e: "orElse p q st = (r, st')"
  obtain r1 st1 where p: "p st = (r1, st1)" by (cases "p st")
  note d1 = stepsD [OF assms(1) p i l]
  show "post input s st r st'"
  proof (cases r1)
    case FAILED
    then have q: "q st1 = (r, st')" and c: "currPos st1 = currPos st"
      using e p d1 by (simp_all add: orElse_def post_def)
    from stepsD [OF assms(2) q] d1 c l show ?thesis by (simp add: post_def)
  next
    case (OK v)
    then show ?thesis using e p d1 by (auto simp add: orElse_def post_def)
  next
    case (ABORT a)
    then show ?thesis using e p d1 by (auto simp add: orElse_def post_def)
  qed
qed

lemma steps_optional:
  assumes "steps input b s p"
  shows "steps input b False (optional p)"
proof (rule stepsI)
  fix st r st'
  assume i: "state_inv input st" and l: "length input < currPos st + b"
    and e: "optional p st = (r, st')"
  obtain r1 st1 where p: "p st = (r1, st1)" by (cases "p st")
  from stepsD [OF assms p i l] e p
  show "post input False st r st'"
    by (cases r1) (auto simp add: optional_def post_def)
qed

lemma optional_not_FAILED: "fst (optional p st) \<noteq> FAILED"
  by (auto simp add: optional_def split: prod.splits res.splits)

lemma steps_parseType: "steps input b True (parseType input)"
  unfolding parseType_def by (intro steps_orElse steps_ids)

lemma steps_texts:
  "steps input b True (parseText input)" "steps input b True (parseInlineText input)"
  "steps input b True (parseInlineMultilineText input)"
  by (rule stepsI,
      auto simp add: post_def parseText_eq parseInlineText_eq parseInlineMultilineText_eq
        state_inv_peg_fail state_inv_currPos run_of_bound state_inv_le split: if_splits)+

lemma steps_parseExpression: "steps input b True (parseExpression input)"
proof (rule stepsI)
  fix st :: "'a pstate" and r :: "(string, 'b) res" and st'
  assume i: "state_inv input st" and e: "parseExpression input st = (r, st')"
  have "parseExpression input st =
     (if run_of peg_c35 input st = [] then (FAILED :: (string, 'b) res, peg_fail peg_c36 st)
      else (OK (run_of peg_c35 input st),
            (peg_fail peg_c36 (st\<lparr>currPos := currPos st + length (run_of peg_c35 input st)\<rparr>))
              \<lparr>savedPos := currPos st\<rparr>))"
    unfolding parseExpression_def Let_def
    using text_rule_body [where cls=peg_c35 and e=peg_c36 and input=input and st=st and f=id]
    by (simp only: id_apply)
  with e i show "post input True st r st'"
    by (auto simp add: post_def state_inv_peg_fail state_inv_currPos run_of_bound state_inv_le split: if_splits)
qed

lemma steps_parseCondition: "steps input b True (parseCondition input)"
proof (rule stepsI)
  fix st :: "'a pstate" and r :: "(EmbedType, 'b) res" and st'
  assume i: "state_inv input st" and l: "length input < currPos st + b"
    and e: "parseCondition input st = (r, st')"
  obtain r1 st1 where x: "parseExpression input st = (r1 :: (string, 'b) res, st1)"
    by (cases "parseExpression input st :: (string, 'b) res \<times> 'a pstate")
  note d1 = stepsD [OF steps_parseExpression x i l]
  obtain b2 st2 where m: "match_char (CHR '':'') peg_c33 input st1 = (b2, st2)"
    by (cases "match_char (CHR '':'') peg_c33 input st1")
  have i2: "state_inv input st2" using match_char_inv [OF m] d1 by (simp add: post_def)
  note p2 = match_char_pos [OF m]
  obtain r3 st3 where w: "parseWhitespace input st2 = (r3 :: (unit, 'b) res, st3)"
    by (cases "parseWhitespace input st2 :: (unit, 'b) res \<times> 'a pstate")
  have l2: "length input < currPos st2 + b" using l d1 p2 by (cases b2) (auto simp add: post_def)
  note d3 = stepsD [OF steps_parseWhitespace w i2 l2]
  have r3: "r3 = OK ()" using w by (auto simp add: parseWhitespace_def Let_def)
  show "post input True st r st'"
    using e x m w d1 i2 p2 d3 r3 i
    by (cases r1; cases b2)
       (auto simp add: post_def parseCondition_def Let_def state_inv_currPos state_inv_le)
qed

lemma postI:
  assumes "state_inv input st'" and "currPos st \<le> currPos st'"
    and "r = FAILED \<Longrightarrow> currPos st' = currPos st"
    and "\<And>v. strict \<Longrightarrow> r = OK v \<Longrightarrow> currPos st < currPos st'"
    and "r \<noteq> ABORT OutOfFuel" and "r \<noteq> ABORT NoReturn" and "r \<noteq> ABORT StackOverflow"
  shows "post input strict st r st'"
  using assms unfolding post_def by blast

lemma steps_many:
  fixes item :: "('a, 'x, 's) rule"
  assumes "steps input b True item" and "b \<le> fuel"
  shows "steps input b False (\<lambda>st. many fuel item st s1)"
  using assms
proof (induction fuel arbitrary: b s1)
  case 0
  show ?case
  proof (rule stepsI)
    fix st :: "'s pstate" and r :: "('a list, 'x) res" and st'
    assume "state_inv input st" and "length input < currPos st + b"
    then show "post input False st r st'" using 0 state_inv_le [of input st] by simp
  qed
next
  case (Suc fuel)
  show ?case
  proof (rule stepsI)
    fix st :: "'s pstate" and r :: "('a list, 'x) res" and st'
    assume i: "state_inv input st" and l: "length input < currPos st + b"
      and e: "many (Suc fuel) item st s1 = (r, st')"
    obtain r1 st1 where it: "item st = (r1, st1)" by (cases "item st")
    note d1 = stepsD [OF Suc.prems(1) it i l]
    show "post input False st r st'"
    proof (cases r1)
      case FAILED
      then show ?thesis using e it d1 by (auto simp add: many.simps post_def)
    next
      case (OK v)
      then have e1: "many fuel item st1 (s1 @ [v]) = (r, st')"
        using e it by (simp add: many.simps)
      have lt: "currPos st < currPos st1" and i1: "state_inv input st1"
        using d1 OK by (simp_all add: post_def)
      have l1: "length input < currPos st1 + (b - 1)" using l lt by simp
      have "steps input (b - 1) True item" using Suc.prems(1) by (rule steps_mono) simp
      moreover have "b - 1 \<le> fuel" using Suc.prems(2) by simp
      ultimately have "steps input (b - 1) False (\<lambda>st. many fuel item st (s1 @ [v]))"
        by (rule Suc.IH)
      from stepsD [OF this _ i1 l1, of r st'] e1
      have "post input False st1 r st'" by simp
      moreover have "r \<noteq> FAILED" using many_not_FAILED [of fuel item st1 "s1 @ [v]"] e1 by auto
      ultimately show ?thesis using lt by (simp add: post_def)
    next
      case (ABORT a)
      then show ?thesis using e it d1 by (auto simp add: many.simps post_def)
    qed
  qed
qed

lemma steps_plus:
  fixes item :: "(string, 'x, 's) rule"
  assumes s: "steps input b True item" and f: "b \<le> fuel"
  shows "steps input b True
           (\<lambda>st. case item st of
                    (OK s2, st1) \<Rightarrow>
                      (case many fuel item st1 [s2] of
                         (OK s1, st2) \<Rightarrow> (OK (peg_c0 s1), st2\<lparr>savedPos := currPos st\<rparr>)
                       | (FAILED, st2) \<Rightarrow> (FAILED, st2)
                       | (ABORT a, st2) \<Rightarrow> (ABORT a, st2))
                  | (FAILED, st1) \<Rightarrow> (FAILED, st1)
                  | (ABORT a, st1) \<Rightarrow> (ABORT a, st1))"
proof (rule stepsI)
  fix st :: "'s pstate" and r :: "(string, 'x) res" and st'
  assume i: "state_inv input st" and l: "length input < currPos st + b"
    and e: "(case item st of
                    (OK s2, st1) \<Rightarrow>
                      (case many fuel item st1 [s2] of
                         (OK s1, st2) \<Rightarrow> (OK (peg_c0 s1), st2\<lparr>savedPos := currPos st\<rparr>)
                       | (FAILED, st2) \<Rightarrow> (FAILED, st2)
                       | (ABORT a, st2) \<Rightarrow> (ABORT a, st2))
                  | (FAILED, st1) \<Rightarrow> (FAILED, st1)
                  | (ABORT a, st1) \<Rightarrow> (ABORT a, st1)) = (r, st')"
  obtain r1 st1 where it: "item st = (r1, st1)" by (cases "item st")
  note d1 = stepsD [OF s it i l]
  show "post input True st r st'"
  proof (cases r1)
    case FAILED
    then show ?thesis using e it d1 by (auto simp add: post_def)
  next
    case (OK v)
    obtain r2 st2 where m: "many fuel item st1 [v] = (r2, st2)"
      by (cases "many fuel item st1 [v]")
    have lt: "currPos st < currPos st1" and i1: "state_inv input st1"
      using d1 OK by (simp_all add: post_def)
    have l1: "length input < currPos st1 + b" using l lt by simp
    from stepsD [OF steps_many [OF s f, of "[v]"] _ i1 l1, of r2 st2] m
    have d2: "post input False st1 r2 st2" by simp
    have "r2 \<noteq> FAILED" using many_not_FAILED [of fuel item st1 "[v]"] m by auto
    then show ?thesis using e it OK m d2 lt by (cases r2) (auto simp add: post_def)
  next
    case (ABORT a)
    then show ?thesis using e it d1 by (auto simp add: post_def)
  qed
qed

lemma steps_parseInlineSource:
  assumes "steps input b True emb" and "b \<le> fuel"
  shows "steps input b True (parseInlineSource fuel emb input)"
proof -
  have "parseInlineSource fuel emb input =
          (\<lambda>st. case orElse (parseInlineText input) emb st of
                    (OK s2, st1) \<Rightarrow>
                      (case many fuel (orElse (parseInlineText input) emb) st1 [s2] of
                         (OK s1, st2) \<Rightarrow> (OK (peg_c0 s1), st2\<lparr>savedPos := currPos st\<rparr>)
                       | (FAILED, st2) \<Rightarrow> (FAILED, st2)
                       | (ABORT a, st2) \<Rightarrow> (ABORT a, st2))
                  | (FAILED, st1) \<Rightarrow> (FAILED, st1)
                  | (ABORT a, st1) \<Rightarrow> (ABORT a, st1))"
    by (rule ext) (simp add: parseInlineSource_def Let_def)
  then show ?thesis
    using steps_plus [OF steps_orElse [OF steps_texts(2) assms(1)] assms(2)] by simp
qed

lemma steps_parseInlineMultilineSource:
  assumes "steps input b True emb" and "b \<le> fuel"
  shows "steps input b True (parseInlineMultilineSource fuel emb input)"
proof -
  have "parseInlineMultilineSource fuel emb input =
          (\<lambda>st. case orElse (parseInlineMultilineText input) emb st of
                    (OK s2, st1) \<Rightarrow>
                      (case many fuel (orElse (parseInlineMultilineText input) emb) st1 [s2] of
                         (OK s1, st2) \<Rightarrow> (OK (peg_c0 s1), st2\<lparr>savedPos := currPos st\<rparr>)
                       | (FAILED, st2) \<Rightarrow> (FAILED, st2)
                       | (ABORT a, st2) \<Rightarrow> (ABORT a, st2))
                  | (FAILED, st1) \<Rightarrow> (FAILED, st1)
                  | (ABORT a, st1) \<Rightarrow> (ABORT a, st1))"
    by (rule ext) (simp add: parseInlineMultilineSource_def Let_def)
  then show ?thesis
    using steps_plus [OF steps_orElse [OF steps_texts(3) assms(1)] assms(2)] by simp
qed

lemma peg_c38_post:
  assumes "state_inv input st" and "peg_c38 input arg st = (r, st')"
  shows "state_inv input st' \<and> currPos st' = currPos st \<and> (\<exists>a. r = OK a)"
  using location_of_ok [OF assms(1)] assms(2) by (auto simp add: peg_c38_def)

lemma peg_c42_post:
  assumes "state_inv input st" and "peg_c42 input cond val st = (r, st')"
  shows "state_inv input st' \<and> currPos st' = currPos st \<and> (\<exists>a. r = OK a)"
  using location_of_ok [OF assms(1)] assms(2)
  by (auto simp add: peg_c42_def Let_def split: option.splits EmbedType.splits)

lemma steps_parseArgument:
  fixes emb :: "(string, 'x, 's) rule"
  assumes s: "steps input b True emb" and f: "b \<le> fuel"
  shows "steps input b False (parseArgument fuel emb input)"
proof (rule stepsI)
  fix st :: "'s pstate" and r :: "(Argument, 'x) res" and st'
  assume i: "state_inv input st" and l: "length input < currPos st + b"
    and e: "parseArgument fuel emb input st = (r, st')"
  obtain r1 st1 where x: "parseInlineSource fuel emb input st = (r1, st1)"
    by (cases "parseInlineSource fuel emb input st")
  note d1 = stepsD [OF steps_parseInlineSource [OF s f] x i l]
  have i1: "state_inv input (st1\<lparr>savedPos := currPos st\<rparr>)" using d1 by (simp add: post_def)
  show "post input False st r st'"
  proof (cases r1)
    case FAILED
    then have "peg_c38 input None (st1\<lparr>savedPos := currPos st\<rparr>) = (r, st')"
      using e x by (simp add: parseArgument_def Let_def)
    from peg_c38_post [OF i1 this] d1 FAILED show ?thesis by (auto simp add: post_def)
  next
    case (OK v)
    then have "peg_c38 input (Some v) (st1\<lparr>savedPos := currPos st\<rparr>) = (r, st')"
      using e x by (simp add: parseArgument_def Let_def)
    from peg_c38_post [OF i1 this] d1 OK show ?thesis by (auto simp add: post_def)
  next
    case (ABORT a)
    then show ?thesis using e x d1 by (auto simp add: parseArgument_def Let_def post_def)
  qed
qed

lemma steps_pipeArgument:
  fixes emb :: "(string, 'x, 's) rule"
  assumes s: "steps input b True emb" and f: "b \<le> fuel"
  shows "steps input b True (pipeArgument fuel emb input)"
proof (rule stepsI)
  fix st :: "'s pstate" and r :: "(Argument, 'x) res" and st'
  assume i: "state_inv input st" and l: "length input < currPos st + b"
    and e: "pipeArgument fuel emb input st = (r, st')"
  obtain b1 st1 where m: "match_char (CHR ''|'') peg_c40 input st = (b1, st1)"
    by (cases "match_char (CHR ''|'') peg_c40 input st")
  note d1 = match_char_step [OF m i]
  show "post input True st r st'"
  proof (cases b1)
    case False
    then show ?thesis using e m d1 i
      by (auto simp add: pipeArgument_def Let_def post_def state_inv_currPos state_inv_le)
  next
    case True
    obtain r2 st2 where x: "parseArgument fuel emb input st1 = (r2, st2)"
      by (cases "parseArgument fuel emb input st1")
    have l1: "length input < currPos st1 + b" using l d1 True by simp
    note d2 = stepsD [OF steps_parseArgument [OF s f] x _ l1]
    show ?thesis using e m True x d1 d2 i
      by (cases r2)
         (auto simp add: pipeArgument_def Let_def post_def state_inv_currPos state_inv_le)
  qed
qed

lemma steps_parseArguments:
  fixes emb :: "(string, 'x, 's) rule"
  assumes s: "steps input b True emb" and f: "b \<le> fuel"
  shows "steps input b False (parseArguments fuel emb input)"
proof (rule stepsI)
  fix st :: "'s pstate" and r :: "(Argument list, 'x) res" and st'
  assume i: "state_inv input st" and l: "length input < currPos st + b"
    and e: "parseArguments fuel emb input st = (r, st')"
  obtain r1 st1 where x: "parseArgument fuel emb input st = (r1, st1)"
    by (cases "parseArgument fuel emb input st")
  note d1 = stepsD [OF steps_parseArgument [OF s f] x i l]
  have i1: "state_inv input st1" and le1: "currPos st \<le> currPos st1"
    using d1 by (simp_all add: post_def)
  obtain r2 st2 where m: "many fuel (pipeArgument fuel emb input) st1 [] = (r2, st2)"
    by (cases "many fuel (pipeArgument fuel emb input) st1 []")
  have l1: "length input < currPos st1 + b" using l le1 by simp
  from stepsD [OF steps_many [OF steps_pipeArgument [OF s f] f, of "[]"] _ i1 l1, of r2 st2] m
  have d2: "post input False st1 r2 st2" by simp
  have nf: "r2 \<noteq> FAILED"
    using many_not_FAILED [of fuel "pipeArgument fuel emb input" st1 "[]"] m by auto
  show "post input False st r st'"
    using e x m d1 d2 nf i
    by (cases r1; cases r2)
       (auto simp add: parseArguments_def Let_def post_def state_inv_currPos state_inv_le)
qed

lemma call_processEmbed_post:
  assumes "call_processEmbed pe ty args ml st = (r, st')"
  shows "currPos st' = currPos st \<and> state_inv input st' = state_inv input st
         \<and> ((\<exists>v. r = OK v) \<or> (\<exists>x. r = ABORT (Thrown x)))"
  using assms by (auto simp add: call_processEmbed_def split: prod.splits sum.splits)

lemma steps_parseInlineEmbed:
  fixes emb :: "(string, 'x, 's) rule" and pe :: "('x, 's) processEmbed"
  assumes s: "steps input b True emb" and f: "b \<le> fuel"
  shows "steps input (Suc b) True (parseInlineEmbed fuel pe emb input)"
proof (rule stepsI)
  fix st :: "'s pstate" and r :: "(string, 'x) res" and st'
  assume i: "state_inv input st" and l: "length input < currPos st + Suc b"
    and e: "parseInlineEmbed fuel pe emb input st = (r, st')"
  obtain b1 st1 where m: "match_char (CHR ''{'') peg_c2 input st = (b1, st1)"
    by (cases "match_char (CHR ''{'') peg_c2 input st")
  note d1 = match_char_step [OF m i]
  show "post input True st r st'"
  proof (cases b1)
    case False
    then show ?thesis using e m d1 i
      by (auto simp add: parseInlineEmbed_def Let_def post_def state_inv_currPos state_inv_le)
  next
    case True
    have i1: "state_inv input st1" and p1: "currPos st1 = Suc (currPos st)"
      using d1 True by simp_all
    have l1: "length input < currPos st1 + b" using l p1 by simp
    obtain r2 st2 where o: "optional (orElse (parseCondition input) (parseType input)) st1
                              = (r2 :: (EmbedType option, 'x) res, st2)"
      by (cases "optional (orElse (parseCondition input) (parseType input)) st1
                   :: (EmbedType option, 'x) res \<times> 's pstate")
    note d2 = stepsD [OF steps_optional [OF steps_orElse [OF steps_parseCondition steps_parseType]]
                o i1 l1]
    have nf2: "r2 \<noteq> FAILED" using optional_not_FAILED [of _ st1] o by (metis fst_conv)
    have i2: "state_inv input st2" and le2: "currPos st1 \<le> currPos st2"
      using d2 by (simp_all add: post_def)
    have l2: "length input < currPos st2 + b" using l1 le2 by simp
    obtain r3 st3 where a: "parseArguments fuel emb input st2 = (r3, st3)"
      by (cases "parseArguments fuel emb input st2")
    note d3 = stepsD [OF steps_parseArguments [OF s f] a i2 l2]
    have i3: "state_inv input st3" and le3: "currPos st2 \<le> currPos st3"
      using d3 by (simp_all add: post_def)
    obtain b4 st4 where m4: "match_char (CHR ''}'') peg_c4 input st3 = (b4, st4)"
      by (cases "match_char (CHR ''}'') peg_c4 input st3")
    note d4 = match_char_step [OF m4 i3]
    obtain r5 st5 where c: "call_processEmbed pe (case r2 of OK v \<Rightarrow> v | _ \<Rightarrow> None)
                              (case r3 of OK v \<Rightarrow> v | _ \<Rightarrow> []) False
                              (st4\<lparr>savedPos := currPos st\<rparr>) = (r5, st5)"
      by (cases "call_processEmbed pe (case r2 of OK v \<Rightarrow> v | _ \<Rightarrow> None)
                              (case r3 of OK v \<Rightarrow> v | _ \<Rightarrow> []) False
                              (st4\<lparr>savedPos := currPos st\<rparr>)")
    note d5 = call_processEmbed_post [OF c, of input]
    show ?thesis
      using e m True o a m4 c d2 d3 d4 d5 nf2 p1 i
      by (cases r2; cases r3; cases b4)
         (auto simp add: parseInlineEmbed_def Let_def post_def state_inv_currPos state_inv_le)
  qed
qed

lemma steps_parseMultilineArgument:
  fixes emb :: "(string, 'x, 's) rule"
  assumes s: "steps input b True emb" and f: "b \<le> fuel"
  shows "steps input b False (parseMultilineArgument fuel emb input)"
proof (rule stepsI)
  fix st :: "'s pstate" and r :: "(Argument, 'x) res" and st'
  assume i: "state_inv input st" and l: "length input < currPos st + b"
    and e: "parseMultilineArgument fuel emb input st = (r, st')"
  obtain r1 st1 where o1: "optional (parseCondition input) st = (r1 :: (EmbedType option, 'x) res, st1)"
    by (cases "optional (parseCondition input) st :: (EmbedType option, 'x) res \<times> 's pstate")
  note d1 = stepsD [OF steps_optional [OF steps_parseCondition] o1 i l]
  have nf1: "r1 \<noteq> FAILED" using optional_not_FAILED [of _ st] o1 by (metis fst_conv)
  have i1: "state_inv input st1" and le1: "currPos st \<le> currPos st1"
    using d1 by (simp_all add: post_def)
  have l1: "length input < currPos st1 + b" using l le1 by simp
  obtain r2 st2 where o2: "optional (parseInlineMultilineSource fuel emb input) st1 = (r2, st2)"
    by (cases "optional (parseInlineMultilineSource fuel emb input) st1")
  note d2 = stepsD [OF steps_optional [OF steps_parseInlineMultilineSource [OF s f]] o2 i1 l1]
  have nf2: "r2 \<noteq> FAILED" using optional_not_FAILED [of _ st1] o2 by (metis fst_conv)
  have i2: "state_inv input (st2\<lparr>savedPos := currPos st\<rparr>)" and le2: "currPos st1 \<le> currPos st2"
    using d2 by (simp_all add: post_def)
  obtain r3 st3 where c: "peg_c42 input (case r1 of OK v \<Rightarrow> v | _ \<Rightarrow> None)
                            (case r2 of OK v \<Rightarrow> v | _ \<Rightarrow> None)
                            (st2\<lparr>savedPos := currPos st\<rparr>) = (r3 :: (Argument, 'x) res, st3)"
    by (cases "peg_c42 input (case r1 of OK v \<Rightarrow> v | _ \<Rightarrow> None)
                            (case r2 of OK v \<Rightarrow> v | _ \<Rightarrow> None)
                            (st2\<lparr>savedPos := currPos st\<rparr>) :: (Argument, 'x) res \<times> 's pstate")
  note d3 = peg_c42_post [OF i2 c]
  show "post input False st r st'"
    using e o1 o2 c d1 d2 d3 nf1 nf2 le1 le2
    by (cases r1; cases r2)
       (auto simp add: parseMultilineArgument_def Let_def post_def)
qed

lemma steps_dashArgument:
  fixes emb :: "(string, 'x, 's) rule"
  assumes s: "steps input b True emb" and f: "b \<le> fuel"
  shows "steps input b True (dashArgument fuel emb input)"
proof (rule stepsI)
  fix st :: "'s pstate" and r :: "(Argument, 'x) res" and st'
  assume i: "state_inv input st" and l: "length input < currPos st + b"
    and e: "dashArgument fuel emb input st = (r, st')"
  obtain b1 st1 where m: "match_char (CHR ''-'') peg_c44 input st = (b1, st1)"
    by (cases "match_char (CHR ''-'') peg_c44 input st")
  note d1 = match_char_step [OF m i]
  show "post input True st r st'"
  proof (cases b1)
    case False
    then show ?thesis using e m d1 i
      by (auto simp add: dashArgument_def Let_def post_def state_inv_currPos state_inv_le)
  next
    case True
    have i1: "state_inv input st1" and p1: "currPos st1 = Suc (currPos st)"
      using d1 True by simp_all
    have l1: "length input < currPos st1 + b" using l p1 by simp
    obtain r2 st2 where w2: "parseWhitespace input st1 = (r2 :: (unit, 'x) res, st2)"
      by (cases "parseWhitespace input st1 :: (unit, 'x) res \<times> 's pstate")
    note d2 = stepsD [OF steps_parseWhitespace w2 i1 l1]
    have r2: "r2 = OK ()" using w2 by (auto simp add: parseWhitespace_def Let_def)
    have i2: "state_inv input st2" and le2: "currPos st1 \<le> currPos st2"
      using d2 by (simp_all add: post_def)
    have l2: "length input < currPos st2 + b" using l1 le2 by simp
    obtain r3 st3 where a: "parseMultilineArgument fuel emb input st2 = (r3, st3)"
      by (cases "parseMultilineArgument fuel emb input st2")
    note d3 = stepsD [OF steps_parseMultilineArgument [OF s f] a i2 l2]
    have i3: "state_inv input st3" and le3: "currPos st2 \<le> currPos st3"
      using d3 by (simp_all add: post_def)
    have l3: "length input < currPos st3 + b" using l2 le3 by simp
    obtain r4 st4 where w4: "parseWhitespace input st3 = (r4 :: (unit, 'x) res, st4)"
      by (cases "parseWhitespace input st3 :: (unit, 'x) res \<times> 's pstate")
    note d4 = stepsD [OF steps_parseWhitespace w4 i3 l3]
    have r4: "r4 = OK ()" using w4 by (auto simp add: parseWhitespace_def Let_def)
    show ?thesis
      using e m True w2 r2 a w4 r4 d2 d3 d4 p1 i
      by (cases r3)
         (auto simp add: dashArgument_def Let_def post_def state_inv_currPos state_inv_le)
  qed
qed

lemma steps_parseMultiLineArguments:
  fixes emb :: "(string, 'x, 's) rule"
  assumes s: "steps input b True emb" and f: "b \<le> fuel"
  shows "steps input b False (parseMultiLineArguments fuel emb input)"
proof (rule stepsI)
  fix st :: "'s pstate" and r :: "(Argument list, 'x) res" and st'
  assume i: "state_inv input st" and l: "length input < currPos st + b"
    and e: "parseMultiLineArguments fuel emb input st = (r, st')"
  obtain r1 st1 where w1: "parseWhitespace input st = (r1 :: (unit, 'x) res, st1)"
    by (cases "parseWhitespace input st :: (unit, 'x) res \<times> 's pstate")
  note d1 = stepsD [OF steps_parseWhitespace w1 i l]
  have r1: "r1 = OK ()" using w1 by (auto simp add: parseWhitespace_def Let_def)
  have i1: "state_inv input st1" and le1: "currPos st \<le> currPos st1"
    using d1 by (simp_all add: post_def)
  have l1: "length input < currPos st1 + b" using l le1 by simp
  obtain r2 st2 where a: "dashArgument fuel emb input st1 = (r2, st2)"
    by (cases "dashArgument fuel emb input st1")
  note d2 = stepsD [OF steps_dashArgument [OF s f] a i1 l1]
  have i2: "state_inv input st2" and le2: "currPos st1 \<le> currPos st2"
    using d2 by (simp_all add: post_def)
  have l2: "length input < currPos st2 + b" using l1 le2 by simp
  obtain r3 st3 where m: "many fuel (dashArgument fuel emb input) st2
                            (case r2 of OK v \<Rightarrow> [v] | _ \<Rightarrow> []) = (r3, st3)"
    by (cases "many fuel (dashArgument fuel emb input) st2 (case r2 of OK v \<Rightarrow> [v] | _ \<Rightarrow> [])")
  from stepsD [OF steps_many [OF steps_dashArgument [OF s f] f] _ i2 l2, of _ r3 st3] m
  have d3: "post input False st2 r3 st3" by simp
  have nf: "r3 \<noteq> FAILED"
    using many_not_FAILED [of fuel "dashArgument fuel emb input" st2] m by (metis fst_conv)
  show "post input False st r st'"
    using e w1 r1 a m d1 d2 d3 nf i
    by (cases r2; cases r3)
       (auto simp add: parseMultiLineArguments_def Let_def post_def state_inv_currPos state_inv_le)
qed

lemma steps_parseMutliLineEmbed:
  fixes emb :: "(string, 'x, 's) rule" and pe :: "('x, 's) processEmbed"
  assumes s: "steps input b True emb" and f: "b \<le> fuel"
  shows "steps input (Suc b) True (parseMutliLineEmbed fuel pe emb input)"
proof (rule stepsI)
  fix st :: "'s pstate" and r :: "(string, 'x) res" and st'
  assume i: "state_inv input st" and l: "length input < currPos st + Suc b"
    and e: "parseMutliLineEmbed fuel pe emb input st = (r, st')"
  obtain b1 st1 where m: "match_char (CHR ''{'') peg_c2 input st = (b1, st1)"
    by (cases "match_char (CHR ''{'') peg_c2 input st")
  note d1 = match_char_step [OF m i]
  show "post input True st r st'"
  proof (cases b1)
    case False
    then show ?thesis using e m d1 i
      by (auto simp add: parseMutliLineEmbed_def Let_def post_def state_inv_currPos state_inv_le)
  next
    case True
    have i1: "state_inv input st1" and p1: "currPos st1 = Suc (currPos st)"
      using d1 True by simp_all
    have l1: "length input < currPos st1 + b" using l p1 by simp
    obtain r2 st2 where o: "optional (parseType input) st1 = (r2 :: (EmbedType option, 'x) res, st2)"
      by (cases "optional (parseType input) st1 :: (EmbedType option, 'x) res \<times> 's pstate")
    note d2 = stepsD [OF steps_optional [OF steps_parseType] o i1 l1]
    have nf2: "r2 \<noteq> FAILED" using optional_not_FAILED [of _ st1] o by (metis fst_conv)
    have i2: "state_inv input st2" and le2: "currPos st1 \<le> currPos st2"
      using d2 by (simp_all add: post_def)
    have l2: "length input < currPos st2 + b" using l1 le2 by simp
    obtain r3 st3 where n: "parseNewline input st2 = (r3 :: (unit, 'x) res, st3)"
      by (cases "parseNewline input st2 :: (unit, 'x) res \<times> 's pstate")
    note d3 = stepsD [OF steps_parseNewline n i2 l2]
    have i3: "state_inv input st3" and le3: "currPos st2 \<le> currPos st3"
      using d3 by (simp_all add: post_def)
    have l3: "length input < currPos st3 + b" using l2 le3 by simp
    obtain r4 st4 where a: "parseMultiLineArguments fuel emb input st3 = (r4, st4)"
      by (cases "parseMultiLineArguments fuel emb input st3")
    note d4 = stepsD [OF steps_parseMultiLineArguments [OF s f] a i3 l3]
    have i4: "state_inv input st4" and le4: "currPos st3 \<le> currPos st4"
      using d4 by (simp_all add: post_def)
    obtain b5 st5 where m5: "match_char (CHR ''}'') peg_c4 input st4 = (b5, st5)"
      by (cases "match_char (CHR ''}'') peg_c4 input st4")
    note d5 = match_char_step [OF m5 i4]
    obtain r6 st6 where c: "call_processEmbed pe (case r2 of OK v \<Rightarrow> v | _ \<Rightarrow> None)
                              (case r4 of OK v \<Rightarrow> v | _ \<Rightarrow> []) True
                              (st5\<lparr>savedPos := currPos st\<rparr>) = (r6, st6)"
      by (cases "call_processEmbed pe (case r2 of OK v \<Rightarrow> v | _ \<Rightarrow> None)
                              (case r4 of OK v \<Rightarrow> v | _ \<Rightarrow> []) True
                              (st5\<lparr>savedPos := currPos st\<rparr>)")
    note d6 = call_processEmbed_post [OF c, of input]
    show ?thesis
      using e m True o n a m5 c d2 d3 d4 d5 d6 nf2 p1 i
      by (cases r2; cases r3; cases r4; cases b5)
         (auto simp add: parseMutliLineEmbed_def Let_def post_def state_inv_currPos state_inv_le)
  qed
qed

lemma steps_cap:
  assumes "steps input b s p" and "length input < b"
  shows "steps input c s p"
proof (rule stepsI)
  fix st r st'
  assume i: "state_inv input st" and e: "p st = (r, st')"
  have "length input < currPos st + b" using assms(2) by simp
  from stepsD [OF assms(1) e i this]
  show "post input s st r st'" .
qed

lemma steps_embed_level:
  fixes emb :: "(string, 'x, 's) rule" and pe :: "('x, 's) processEmbed"
  assumes s: "steps input b True emb"
  shows "steps input (Suc b) True
           (orElse (parseInlineEmbed (Suc (length input)) pe emb input)
                   (parseMutliLineEmbed (Suc (length input)) pe emb input))"
proof (cases "b \<le> Suc (length input)")
  case True
  show ?thesis
    by (rule steps_orElse [OF steps_parseInlineEmbed [OF s True]
          steps_parseMutliLineEmbed [OF s True]])
next
  case False
  then have c: "Suc (length input) \<le> b" by simp
  have s': "steps input (Suc (length input)) True emb" using s c by (rule steps_mono)
  have "steps input (Suc (Suc (length input))) True
           (orElse (parseInlineEmbed (Suc (length input)) pe emb input)
                   (parseMutliLineEmbed (Suc (length input)) pe emb input))"
    by (rule steps_orElse [OF steps_parseInlineEmbed [OF s' order_refl]
          steps_parseMutliLineEmbed [OF s' order_refl]])
  then show ?thesis by (rule steps_cap) simp
qed

lemma steps_parseEmbed:
  fixes pe :: "('x, 's) processEmbed"
  shows "steps input fuel True (parseEmbed fuel pe input)"
proof (induction fuel)
  case 0
  show ?case
  proof (rule stepsI)
    fix st :: "'s pstate" and r :: "(string, 'x) res" and st'
    assume "state_inv input st" and "length input < currPos st + 0"
    then show "post input True st r st'" using state_inv_le [of input st] by simp
  qed
next
  case (Suc fuel)
  have "steps input (Suc fuel) True
          (orElse (parseInlineEmbed (Suc (length input)) pe (parseEmbed fuel pe input) input)
                  (parseMutliLineEmbed (Suc (length input)) pe (parseEmbed fuel pe input) input))"
    using Suc by (rule steps_embed_level)
  then show ?case by (simp add: parseEmbed.simps)
qed

lemma steps_many_input:
  fixes item :: "('a, 'x, 's) rule"
  assumes s: "steps input b True item"
  shows "steps input b False (\<lambda>st. many (Suc (length input)) item st s1)"
proof (cases "b \<le> Suc (length input)")
  case True
  with s show ?thesis by (rule steps_many)
next
  case False
  then have c: "Suc (length input) \<le> b" by simp
  have s': "steps input (Suc (length input)) True item" using s c by (rule steps_mono)
  have "steps input (Suc (length input)) False (\<lambda>st. many (Suc (length input)) item st s1)"
    using s' order_refl by (rule steps_many)
  then show ?thesis by (rule steps_cap) simp
qed

lemma steps_parseSource:
  fixes pe :: "('x, 's) processEmbed"
  shows "steps input stack False (parseSource stack pe input)"
proof (rule stepsI)
  fix st :: "'s pstate" and r :: "(string, 'x) res" and st'
  assume i: "state_inv input st" and l: "length input < currPos st + stack"
    and e: "parseSource stack pe input st = (r, st')"
  let ?item = "orElse (parseText input) (parseEmbed stack pe input)"
  obtain r1 st1 where m: "many (Suc (length input)) ?item st [] = (r1, st1)"
    by (cases "many (Suc (length input)) ?item st []")
  from stepsD [OF steps_many_input [OF steps_orElse [OF steps_texts(1) steps_parseEmbed],
        of input stack pe "[]"] _ i l, of r1 st1] m
  have d1: "post input False st r1 st1" by simp
  have nf: "r1 \<noteq> FAILED" using many_not_FAILED [of "Suc (length input)" ?item st "[]"] m by auto
  show "post input False st r st'"
    using e m d1 nf by (cases r1) (auto simp add: parseSource_def Let_def post_def)
qed

lemma raise_failure_not_NoReturn:
  assumes "state_inv input st"
  shows "\<exists>err. fst (raise_failure input st) = Raises err"
  using raise_failure_ok [OF assms] by (metis fst_conv)

lemma peg_parse_terminates:
  fixes pe :: "('x, 's) processEmbed"
  shows "(\<exists>v. fst (peg_parse pe input h) = Returns v)
         \<or> (\<exists>err. fst (peg_parse pe input h) = Raises err)
         \<or> (\<exists>x. fst (peg_parse pe input h) = Aborts (Thrown x))"
proof -
  let ?st0 = "initial_state h :: 's pstate"
  obtain r st1 where ps: "parseSource (Suc (length input)) pe input ?st0 = (r, st1)"
    by (cases "parseSource (Suc (length input)) pe input ?st0")
  have l: "length input < currPos ?st0 + Suc (length input)" by simp
  note d = stepsD [OF steps_parseSource ps state_inv_initial l]
  have i1: "state_inv input st1" using d by (simp add: post_def)
  have i2: "state_inv input (peg_fail EndExp st1)" using i1 by (rule state_inv_peg_fail)
  from raise_failure_not_NoReturn [OF i1, where ?'b = 'x]
    raise_failure_not_NoReturn [OF i2, where ?'b = 'x]
  show ?thesis
    using ps d
    by (cases r; cases "case r of ABORT a \<Rightarrow> a | _ \<Rightarrow> OutOfFuel")
       (auto simp add: peg_parse_def peg_parse_from_def post_def)
qed

section \<open>The call stack\<close>

text \<open>
  The size of the call stack matters in one way only: a parse under a stack with
  room for \<open>stack\<close> nested calls of \<open>peg$parseEmbed\<close> either ends in
  \<open>StackOverflow\<close> or does, state and all, what the parse under any larger
  stack does; and a stack with room for more calls than the input has characters
  is never used up.
\<close>

lemma upto_overflowI:
  assumes "\<And>st r st'. p st = (r, st') \<Longrightarrow> r \<noteq> ABORT StackOverflow \<Longrightarrow> q st = (r, st')"
  shows "upto_overflow p q"
  using assms unfolding upto_overflow_def by blast

lemma upto_overflowD:
  assumes "upto_overflow p q" and "p st = (r, st')" and "r \<noteq> ABORT StackOverflow"
  shows "q st = (r, st')"
  using assms unfolding upto_overflow_def by blast

lemma upto_overflow_refl: "upto_overflow p p"
  by (simp add: upto_overflow_def)

lemma upto_overflow_orElse:
  assumes "upto_overflow p1 p2" and "upto_overflow q1 q2"
  shows "upto_overflow (orElse p1 q1) (orElse p2 q2)"
proof (rule upto_overflowI)
  fix st r st'
  assume e: "orElse p1 q1 st = (r, st')" and n: "r \<noteq> ABORT StackOverflow"
  obtain r1 st1 where a: "p1 st = (r1, st1)" by (cases "p1 st")
  have n1: "r1 \<noteq> ABORT StackOverflow" using e n a by (auto simp add: orElse_def)
  note a2 = upto_overflowD [OF assms(1) a n1]
  show "orElse p2 q2 st = (r, st')"
  proof (cases "r1 = FAILED")
    case True
    then have "q1 st1 = (r, st')" using e a by (simp add: orElse_def)
    from upto_overflowD [OF assms(2) this n] show ?thesis using a2 True by (simp add: orElse_def)
  next
    case False
    then show ?thesis using e a a2 by (cases r1) (auto simp add: orElse_def)
  qed
qed

lemma upto_overflow_optional:
  assumes "upto_overflow p1 p2"
  shows "upto_overflow (optional p1) (optional p2)"
proof (rule upto_overflowI)
  fix st r st'
  assume e: "optional p1 st = (r, st')" and n: "r \<noteq> ABORT StackOverflow"
  obtain r1 st1 where a: "p1 st = (r1, st1)" by (cases "p1 st")
  have n1: "r1 \<noteq> ABORT StackOverflow" using e n a by (auto simp add: optional_def)
  from upto_overflowD [OF assms a n1] e a
  show "optional p2 st = (r, st')" by (simp add: optional_def)
qed

lemma upto_overflow_many:
  assumes "upto_overflow p1 p2"
  shows "upto_overflow (\<lambda>st. many fuel p1 st s1) (\<lambda>st. many fuel p2 st s1)"
proof (induction fuel arbitrary: s1)
  case 0
  show ?case by (rule upto_overflowI) (simp add: many.simps)
next
  case (Suc fuel)
  show ?case
  proof (rule upto_overflowI)
    fix st r st'
    assume e: "many (Suc fuel) p1 st s1 = (r, st')" and n: "r \<noteq> ABORT StackOverflow"
    obtain r1 st1 where a: "p1 st = (r1, st1)" by (cases "p1 st")
    have n1: "r1 \<noteq> ABORT StackOverflow" using e n a by (auto simp add: many.simps)
    note a2 = upto_overflowD [OF assms a n1]
    show "many (Suc fuel) p2 st s1 = (r, st')"
    proof (cases r1)
      case (OK v)
      then have "many fuel p1 st1 (s1 @ [v]) = (r, st')" using e a by (simp add: many.simps)
      from upto_overflowD [OF Suc.IH this n] show ?thesis using a2 OK by (simp add: many.simps)
    qed (use e a a2 in \<open>simp_all add: many.simps\<close>)
  qed
qed

lemma upto_overflow_manyD:
  assumes "upto_overflow p1 p2" and "many fuel p1 st s1 = (r, st')" and "r \<noteq> ABORT StackOverflow"
  shows "many fuel p2 st s1 = (r, st')"
  using upto_overflowD [OF upto_overflow_many [OF assms(1)] assms(2) assms(3)] .

lemma upto_overflow_parseInlineSource:
  assumes u: "upto_overflow emb1 emb2"
  shows "upto_overflow (parseInlineSource fuel emb1 input) (parseInlineSource fuel emb2 input)"
proof (rule upto_overflowI)
  fix st r st'
  assume e: "parseInlineSource fuel emb1 input st = (r, st')" and n: "r \<noteq> ABORT StackOverflow"
  note ui = upto_overflow_orElse [OF upto_overflow_refl u, of "parseInlineText input"]
  obtain r1 st1 where a: "orElse (parseInlineText input) emb1 st = (r1, st1)"
    by (cases "orElse (parseInlineText input) emb1 st")
  have n1: "r1 \<noteq> ABORT StackOverflow" using e n a by (auto simp add: parseInlineSource_def Let_def)
  note a2 = upto_overflowD [OF ui a n1]
  show "parseInlineSource fuel emb2 input st = (r, st')"
  proof (cases r1)
    case (OK v)
    obtain r2 st2 where b: "many fuel (orElse (parseInlineText input) emb1) st1 [v] = (r2, st2)"
      by (cases "many fuel (orElse (parseInlineText input) emb1) st1 [v]")
    have n2: "r2 \<noteq> ABORT StackOverflow"
      using e n a b OK by (auto simp add: parseInlineSource_def Let_def)
    from upto_overflow_manyD [OF ui b n2] e a a2 b OK
    show ?thesis by (simp add: parseInlineSource_def Let_def)
  qed (use e a a2 in \<open>auto simp add: parseInlineSource_def Let_def\<close>)
qed

lemma upto_overflow_parseInlineMultilineSource:
  assumes u: "upto_overflow emb1 emb2"
  shows "upto_overflow (parseInlineMultilineSource fuel emb1 input)
           (parseInlineMultilineSource fuel emb2 input)"
proof (rule upto_overflowI)
  fix st r st'
  assume e: "parseInlineMultilineSource fuel emb1 input st = (r, st')"
    and n: "r \<noteq> ABORT StackOverflow"
  note ui = upto_overflow_orElse [OF upto_overflow_refl u, of "parseInlineMultilineText input"]
  obtain r1 st1 where a: "orElse (parseInlineMultilineText input) emb1 st = (r1, st1)"
    by (cases "orElse (parseInlineMultilineText input) emb1 st")
  have n1: "r1 \<noteq> ABORT StackOverflow"
    using e n a by (auto simp add: parseInlineMultilineSource_def Let_def)
  note a2 = upto_overflowD [OF ui a n1]
  show "parseInlineMultilineSource fuel emb2 input st = (r, st')"
  proof (cases r1)
    case (OK v)
    obtain r2 st2 where b: "many fuel (orElse (parseInlineMultilineText input) emb1) st1 [v] = (r2, st2)"
      by (cases "many fuel (orElse (parseInlineMultilineText input) emb1) st1 [v]")
    have n2: "r2 \<noteq> ABORT StackOverflow"
      using e n a b OK by (auto simp add: parseInlineMultilineSource_def Let_def)
    from upto_overflow_manyD [OF ui b n2] e a a2 b OK
    show ?thesis by (simp add: parseInlineMultilineSource_def Let_def)
  qed (use e a a2 in \<open>auto simp add: parseInlineMultilineSource_def Let_def\<close>)
qed

lemma peg_c38_no_overflow: "fst (peg_c38 input arg st) \<noteq> ABORT StackOverflow"
  by (simp add: peg_c38_def split: option.splits prod.splits)

lemma peg_c42_no_overflow: "fst (peg_c42 input cond val st) \<noteq> ABORT StackOverflow"
  by (simp add: peg_c42_def Let_def split: option.splits prod.splits EmbedType.splits)

lemma upto_overflow_parseArgument:
  assumes u: "upto_overflow emb1 emb2"
  shows "upto_overflow (parseArgument fuel emb1 input) (parseArgument fuel emb2 input)"
proof (rule upto_overflowI)
  fix st r st'
  assume e: "parseArgument fuel emb1 input st = (r, st')" and n: "r \<noteq> ABORT StackOverflow"
  obtain r1 st1 where a: "parseInlineSource fuel emb1 input st = (r1, st1)"
    by (cases "parseInlineSource fuel emb1 input st")
  have n1: "r1 \<noteq> ABORT StackOverflow" using e n a by (auto simp add: parseArgument_def Let_def)
  from upto_overflowD [OF upto_overflow_parseInlineSource [OF u] a n1] e a
  show "parseArgument fuel emb2 input st = (r, st')" by (simp add: parseArgument_def Let_def)
qed

lemma upto_overflow_pipeArgument:
  assumes u: "upto_overflow emb1 emb2"
  shows "upto_overflow (pipeArgument fuel emb1 input) (pipeArgument fuel emb2 input)"
proof (rule upto_overflowI)
  fix st r st'
  assume e: "pipeArgument fuel emb1 input st = (r, st')" and n: "r \<noteq> ABORT StackOverflow"
  obtain b1 st1 where m: "match_char (CHR ''|'') peg_c40 input st = (b1, st1)"
    by (cases "match_char (CHR ''|'') peg_c40 input st")
  obtain r2 st2 where a: "parseArgument fuel emb1 input st1 = (r2, st2)"
    by (cases "parseArgument fuel emb1 input st1")
  show "pipeArgument fuel emb2 input st = (r, st')"
  proof (cases b1)
    case True
    have n2: "r2 \<noteq> ABORT StackOverflow"
      using e n m a True by (auto simp add: pipeArgument_def Let_def)
    from upto_overflowD [OF upto_overflow_parseArgument [OF u] a n2] e m a True
    show ?thesis by (simp add: pipeArgument_def Let_def)
  next
    case False
    then show ?thesis using e m by (simp add: pipeArgument_def Let_def)
  qed
qed

lemma upto_overflow_parseArguments:
  assumes u: "upto_overflow emb1 emb2"
  shows "upto_overflow (parseArguments fuel emb1 input) (parseArguments fuel emb2 input)"
proof (rule upto_overflowI)
  fix st r st'
  assume e: "parseArguments fuel emb1 input st = (r, st')" and n: "r \<noteq> ABORT StackOverflow"
  obtain r1 st1 where a: "parseArgument fuel emb1 input st = (r1, st1)"
    by (cases "parseArgument fuel emb1 input st")
  have n1: "r1 \<noteq> ABORT StackOverflow" using e n a by (auto simp add: parseArguments_def Let_def)
  note a2 = upto_overflowD [OF upto_overflow_parseArgument [OF u] a n1]
  show "parseArguments fuel emb2 input st = (r, st')"
  proof (cases r1)
    case (OK v)
    obtain r2 st2 where b: "many fuel (pipeArgument fuel emb1 input) st1 [] = (r2, st2)"
      by (cases "many fuel (pipeArgument fuel emb1 input) st1 []")
    have n2: "r2 \<noteq> ABORT StackOverflow"
      using e n a b OK by (auto simp add: parseArguments_def Let_def)
    from upto_overflow_manyD [OF upto_overflow_pipeArgument [OF u] b n2] e a a2 b OK
    show ?thesis by (simp add: parseArguments_def Let_def)
  qed (use e a a2 in \<open>auto simp add: parseArguments_def Let_def\<close>)
qed

lemma call_processEmbed_no_overflow:
  "fst (call_processEmbed pe ty args ml st) \<noteq> ABORT StackOverflow"
  by (simp add: call_processEmbed_def split: prod.splits sum.splits)

lemma upto_overflow_parseInlineEmbed:
  fixes emb1 :: "(string, 'x, 's) rule"
  assumes u: "upto_overflow emb1 emb2"
  shows "upto_overflow (parseInlineEmbed fuel pe emb1 input) (parseInlineEmbed fuel pe emb2 input)"
proof (rule upto_overflowI)
  fix st :: "'s pstate" and r :: "(string, 'x) res" and st'
  assume e: "parseInlineEmbed fuel pe emb1 input st = (r, st')" and n: "r \<noteq> ABORT StackOverflow"
  obtain b1 st1 where m: "match_char (CHR ''{'') peg_c2 input st = (b1, st1)"
    by (cases "match_char (CHR ''{'') peg_c2 input st")
  obtain r2 st2 where o: "optional (orElse (parseCondition input) (parseType input)) st1
                            = (r2 :: (EmbedType option, 'x) res, st2)"
    by (cases "optional (orElse (parseCondition input) (parseType input)) st1
                 :: (EmbedType option, 'x) res \<times> 's pstate")
  obtain r3 st3 where a: "parseArguments fuel emb1 input st2 = (r3, st3)"
    by (cases "parseArguments fuel emb1 input st2")
  show "parseInlineEmbed fuel pe emb2 input st = (r, st')"
  proof (cases "b1 \<and> (\<exists>v. r2 = OK v)")
    case True
    then obtain v where v: "r2 = OK v" and b1: b1 by blast
    have n3: "r3 \<noteq> ABORT StackOverflow"
      using e n m o a v b1 by (auto simp add: parseInlineEmbed_def Let_def)
    from upto_overflowD [OF upto_overflow_parseArguments [OF u] a n3] e m o a v b1
    show ?thesis by (simp add: parseInlineEmbed_def Let_def)
  next
    case False
    then show ?thesis using e m o by (cases b1; cases r2) (simp_all add: parseInlineEmbed_def Let_def)
  qed
qed

lemma upto_overflow_parseMultilineArgument:
  fixes emb1 :: "(string, 'x, 's) rule"
  assumes u: "upto_overflow emb1 emb2"
  shows "upto_overflow (parseMultilineArgument fuel emb1 input)
           (parseMultilineArgument fuel emb2 input)"
proof (rule upto_overflowI)
  fix st :: "'s pstate" and r :: "(Argument, 'x) res" and st'
  assume e: "parseMultilineArgument fuel emb1 input st = (r, st')"
    and n: "r \<noteq> ABORT StackOverflow"
  obtain r1 st1 where o: "optional (parseCondition input) st = (r1 :: (EmbedType option, 'x) res, st1)"
    by (cases "optional (parseCondition input) st :: (EmbedType option, 'x) res \<times> 's pstate")
  obtain r2 st2 where a: "optional (parseInlineMultilineSource fuel emb1 input) st1 = (r2, st2)"
    by (cases "optional (parseInlineMultilineSource fuel emb1 input) st1")
  show "parseMultilineArgument fuel emb2 input st = (r, st')"
  proof (cases r1)
    case (OK v)
    have n2: "r2 \<noteq> ABORT StackOverflow"
      using e n o a OK by (auto simp add: parseMultilineArgument_def Let_def)
    from upto_overflowD [OF upto_overflow_optional [OF upto_overflow_parseInlineMultilineSource [OF u]] a n2]
      e o a OK
    show ?thesis by (simp add: parseMultilineArgument_def Let_def)
  qed (use e o in \<open>auto simp add: parseMultilineArgument_def Let_def\<close>)
qed

lemma upto_overflow_dashArgument:
  fixes emb1 :: "(string, 'x, 's) rule"
  assumes u: "upto_overflow emb1 emb2"
  shows "upto_overflow (dashArgument fuel emb1 input) (dashArgument fuel emb2 input)"
proof (rule upto_overflowI)
  fix st :: "'s pstate" and r :: "(Argument, 'x) res" and st'
  assume e: "dashArgument fuel emb1 input st = (r, st')" and n: "r \<noteq> ABORT StackOverflow"
  obtain b1 st1 where m: "match_char (CHR ''-'') peg_c44 input st = (b1, st1)"
    by (cases "match_char (CHR ''-'') peg_c44 input st")
  obtain r2 st2 where w: "parseWhitespace input st1 = (r2 :: (unit, 'x) res, st2)"
    by (cases "parseWhitespace input st1 :: (unit, 'x) res \<times> 's pstate")
  have r2: "r2 = OK ()" using w by (auto simp add: parseWhitespace_def Let_def)
  obtain r3 st3 where a: "parseMultilineArgument fuel emb1 input st2 = (r3, st3)"
    by (cases "parseMultilineArgument fuel emb1 input st2")
  show "dashArgument fuel emb2 input st = (r, st')"
  proof (cases b1)
    case True
    have n3: "r3 \<noteq> ABORT StackOverflow"
      using e n m w r2 a True by (auto simp add: dashArgument_def Let_def)
    from upto_overflowD [OF upto_overflow_parseMultilineArgument [OF u] a n3] e m w r2 a True
    show ?thesis by (simp add: dashArgument_def Let_def)
  next
    case False
    then show ?thesis using e m by (simp add: dashArgument_def Let_def)
  qed
qed

lemma upto_overflow_parseMultiLineArguments:
  fixes emb1 :: "(string, 'x, 's) rule"
  assumes u: "upto_overflow emb1 emb2"
  shows "upto_overflow (parseMultiLineArguments fuel emb1 input)
           (parseMultiLineArguments fuel emb2 input)"
proof (rule upto_overflowI)
  fix st :: "'s pstate" and r :: "(Argument list, 'x) res" and st'
  assume e: "parseMultiLineArguments fuel emb1 input st = (r, st')"
    and n: "r \<noteq> ABORT StackOverflow"
  obtain r1 st1 where w: "parseWhitespace input st = (r1 :: (unit, 'x) res, st1)"
    by (cases "parseWhitespace input st :: (unit, 'x) res \<times> 's pstate")
  have r1: "r1 = OK ()" using w by (auto simp add: parseWhitespace_def Let_def)
  obtain r2 st2 where a: "dashArgument fuel emb1 input st1 = (r2, st2)"
    by (cases "dashArgument fuel emb1 input st1")
  have n2: "r2 \<noteq> ABORT StackOverflow"
    using e n w r1 a by (auto simp add: parseMultiLineArguments_def Let_def)
  note a2 = upto_overflowD [OF upto_overflow_dashArgument [OF u] a n2]
  show "parseMultiLineArguments fuel emb2 input st = (r, st')"
  proof (cases r2)
    case (OK v)
    obtain r3 st3 where b: "many fuel (dashArgument fuel emb1 input) st2 [v] = (r3, st3)"
      by (cases "many fuel (dashArgument fuel emb1 input) st2 [v]")
    have n3: "r3 \<noteq> ABORT StackOverflow"
      using e n w r1 a b OK by (auto simp add: parseMultiLineArguments_def Let_def)
    from upto_overflow_manyD [OF upto_overflow_dashArgument [OF u] b n3] e w r1 a a2 b OK
    show ?thesis by (simp add: parseMultiLineArguments_def Let_def)
  qed (use e w r1 a a2 in \<open>auto simp add: parseMultiLineArguments_def Let_def\<close>)
qed

lemma upto_overflow_parseMutliLineEmbed:
  fixes emb1 :: "(string, 'x, 's) rule"
  assumes u: "upto_overflow emb1 emb2"
  shows "upto_overflow (parseMutliLineEmbed fuel pe emb1 input)
           (parseMutliLineEmbed fuel pe emb2 input)"
proof (rule upto_overflowI)
  fix st :: "'s pstate" and r :: "(string, 'x) res" and st'
  assume e: "parseMutliLineEmbed fuel pe emb1 input st = (r, st')"
    and n: "r \<noteq> ABORT StackOverflow"
  obtain b1 st1 where m: "match_char (CHR ''{'') peg_c2 input st = (b1, st1)"
    by (cases "match_char (CHR ''{'') peg_c2 input st")
  obtain r2 st2 where o: "optional (parseType input) st1 = (r2 :: (EmbedType option, 'x) res, st2)"
    by (cases "optional (parseType input) st1 :: (EmbedType option, 'x) res \<times> 's pstate")
  obtain r3 st3 where l: "parseNewline input st2 = (r3 :: (unit, 'x) res, st3)"
    by (cases "parseNewline input st2 :: (unit, 'x) res \<times> 's pstate")
  obtain r4 st4 where a: "parseMultiLineArguments fuel emb1 input st3 = (r4, st4)"
    by (cases "parseMultiLineArguments fuel emb1 input st3")
  show "parseMutliLineEmbed fuel pe emb2 input st = (r, st')"
  proof (cases "b1 \<and> (\<exists>v. r2 = OK v) \<and> (\<exists>v. r3 = OK v)")
    case True
    then obtain v2 v3 where v: "r2 = OK v2" "r3 = OK v3" and b1: b1 by blast
    have n4: "r4 \<noteq> ABORT StackOverflow"
      using e n m o l a v b1 by (auto simp add: parseMutliLineEmbed_def Let_def)
    from upto_overflowD [OF upto_overflow_parseMultiLineArguments [OF u] a n4] e m o l a v b1
    show ?thesis by (simp add: parseMutliLineEmbed_def Let_def)
  next
    case False
    then show ?thesis using e m o l
      by (cases b1; cases r2; cases r3) (simp_all add: parseMutliLineEmbed_def Let_def)
  qed
qed

lemma upto_overflow_parseEmbed_Suc:
  "upto_overflow (parseEmbed stack pe input) (parseEmbed (Suc stack) pe input)"
proof (induction stack)
  case 0
  show ?case by (rule upto_overflowI) (simp add: parseEmbed.simps)
next
  case (Suc stack)
  have "upto_overflow
          (orElse (parseInlineEmbed (Suc (length input)) pe (parseEmbed stack pe input) input)
                  (parseMutliLineEmbed (Suc (length input)) pe (parseEmbed stack pe input) input))
          (orElse (parseInlineEmbed (Suc (length input)) pe (parseEmbed (Suc stack) pe input) input)
                  (parseMutliLineEmbed (Suc (length input)) pe (parseEmbed (Suc stack) pe input) input))"
    by (rule upto_overflow_orElse [OF upto_overflow_parseInlineEmbed [OF Suc]
          upto_overflow_parseMutliLineEmbed [OF Suc]])
  then show ?case by (simp add: parseEmbed.simps)
qed

lemma upto_overflow_trans:
  assumes "upto_overflow p q" and "upto_overflow q r"
  shows "upto_overflow p r"
  using assms unfolding upto_overflow_def by blast

lemma upto_overflow_parseEmbed:
  "upto_overflow (parseEmbed stack pe input) (parseEmbed (stack + j) pe input)"
proof (induction j)
  case 0
  show ?case by (simp add: upto_overflow_refl)
next
  case (Suc j)
  from upto_overflow_trans [OF Suc upto_overflow_parseEmbed_Suc [of "stack + j" pe input]]
  show ?case by simp
qed

lemma upto_overflow_parseSource:
  "upto_overflow (parseSource stack pe input) (parseSource (stack + j) pe input)"
proof (rule upto_overflowI)
  fix st r st'
  assume e: "parseSource stack pe input st = (r, st')" and n: "r \<noteq> ABORT StackOverflow"
  let ?item = "\<lambda>k. orElse (parseText input) (parseEmbed k pe input)"
  obtain r1 st1 where a: "many (Suc (length input)) (?item stack) st [] = (r1, st1)"
    by (cases "many (Suc (length input)) (?item stack) st []")
  have n1: "r1 \<noteq> ABORT StackOverflow" using e n a by (auto simp add: parseSource_def Let_def)
  from upto_overflow_manyD [OF upto_overflow_orElse [OF upto_overflow_refl upto_overflow_parseEmbed] a n1]
    e a
  show "parseSource (stack + j) pe input st = (r, st')" by (simp add: parseSource_def Let_def)
qed

lemma peg_parse_from_stack:
  "fst (peg_parse_from stack pe input st) = Aborts StackOverflow
   \<or> peg_parse_from (stack + j) pe input st = peg_parse_from stack pe input st"
proof -
  obtain r st1 where a: "parseSource stack pe input st = (r, st1)"
    by (cases "parseSource stack pe input st")
  show ?thesis
  proof (cases "r = ABORT StackOverflow")
    case True
    then show ?thesis using a by (simp add: peg_parse_from_def)
  next
    case False
    from upto_overflowD [OF upto_overflow_parseSource a False] a
    show ?thesis by (simp add: peg_parse_from_def)
  qed
qed

lemma peg_parse_no_overflow:
  fixes pe :: "('x, 's) processEmbed"
  assumes "length input < stack"
  shows "fst (peg_parse_stack stack pe input h) \<noteq> Aborts StackOverflow"
proof -
  let ?st0 = "initial_state h :: 's pstate"
  obtain r st1 where ps: "parseSource stack pe input ?st0 = (r, st1)"
    by (cases "parseSource stack pe input ?st0")
  have l: "length input < currPos ?st0 + stack" using assms by simp
  note d = stepsD [OF steps_parseSource ps state_inv_initial l]
  have i1: "state_inv input st1" using d by (simp add: post_def)
  have i2: "state_inv input (peg_fail EndExp st1)" using i1 by (rule state_inv_peg_fail)
  from raise_failure_not_NoReturn [OF i1, where ?'b = 'x]
    raise_failure_not_NoReturn [OF i2, where ?'b = 'x]
  show ?thesis
    using ps d
    by (cases r) (auto simp add: peg_parse_stack_def peg_parse_from_def post_def)
qed

lemma stack_cases:
  fixes pe :: "('x, 's) processEmbed"
  shows "fst (peg_parse_stack stack pe input h) = Aborts StackOverflow
         \<or> peg_parse_stack stack pe input h = peg_parse pe input h"
proof (cases "stack \<le> Suc (length input)")
  case True
  then obtain j where j: "Suc (length input) = stack + j" using le_Suc_ex by blast
  from peg_parse_from_stack [of stack pe input "initial_state h" j]
  show ?thesis by (auto simp add: peg_parse_stack_def peg_parse_def j)
next
  case False
  then obtain j where j: "stack = Suc (length input) + j" using le_Suc_ex [of "Suc (length input)" stack] by auto
  have "fst (peg_parse_stack (Suc (length input)) pe input h) \<noteq> Aborts StackOverflow"
    by (rule peg_parse_no_overflow) simp
  with peg_parse_from_stack [of "Suc (length input)" pe input "initial_state h" j]
  show ?thesis by (auto simp add: peg_parse_stack_def peg_parse_def j)
qed

lemma stack_enough:
  fixes pe :: "('x, 's) processEmbed"
  assumes "length input < stack"
  shows "peg_parse_stack stack pe input h = peg_parse pe input h"
  using stack_cases [of stack pe input h] peg_parse_no_overflow [OF assms, of pe h] by blast

lemma inline_embed_overflow:
  fixes emb :: "(string, 'x, 's) rule" and pe :: "('x, 's) processEmbed"
  assumes at_open: "currPos st < length input" "input ! currPos st = CHR ''{''"
    and next_brace: "input ! Suc (currPos st) = CHR ''{'' \<or> input ! Suc (currPos st) = CHR ''}''"
    and inner: "\<And>st1. currPos st1 = Suc (currPos st) \<Longrightarrow> \<exists>st2. emb st1 = (ABORT a, st2)"
  shows "\<exists>st'. parseInlineEmbed fuel pe emb input st = (ABORT a, st')"
proof -
  let ?st1 = "st\<lparr>currPos := currPos st + 1\<rparr>"
  have m1: "match_char (CHR ''{'') peg_c2 input st = (True, ?st1)"
    using at_open by (rule match_char_hit)
  note bc = brace_classes [OF next_brace]
  let ?stc = "(peg_fail peg_c36 ?st1)\<lparr>currPos := currPos ?st1\<rparr>"
  have c: "parseCondition input ?st1 = (FAILED :: (EmbedType, 'x) res, ?stc)"
    using bc(1) by (intro parseCondition_fails) simp
  have "\<exists>st2. parseType input ?stc = (FAILED :: (EmbedType, 'x) res, st2) \<and> currPos st2 = currPos ?stc"
    using bc(3) by (intro parseType_fails) simp
  then obtain st2 where ty: "parseType input ?stc = (FAILED :: (EmbedType, 'x) res, st2)"
    and p2: "currPos st2 = Suc (currPos st)"
    by auto
  have o: "optional (orElse (parseCondition input) (parseType input)) ?st1
             = (OK None :: (EmbedType option, 'x) res, st2)"
    using c ty by (simp add: optional_def orElse_def)
  have t: "parseInlineText input st2 = (FAILED :: (string, 'x) res, peg_fail peg_c50 st2)"
    using bc(2) p2 by (intro parseInlineText_fails) simp
  from inner [of "peg_fail peg_c50 st2"] p2
  obtain st3 where e: "emb (peg_fail peg_c50 st2) = (ABORT a, st3)" by auto
  have "parseArguments fuel emb input st2 = (ABORT a, st3)"
    using t e by (simp add: parseArguments_def parseArgument_def parseInlineSource_def orElse_def Let_def)
  then have "parseInlineEmbed fuel pe emb input st = (ABORT a, st3)"
    using m1 o by (simp add: parseInlineEmbed_def Let_def)
  then show ?thesis by blast
qed

lemma parseEmbed_nest_overflow:
  fixes pe :: "('x, 's) processEmbed"
  shows "stack + i \<le> d \<Longrightarrow> currPos st = i \<Longrightarrow>
         \<exists>st'. parseEmbed stack pe (nest d) st = (ABORT StackOverflow, st')"
proof (induction stack arbitrary: i st)
  case 0
  show ?case by (simp add: parseEmbed.simps)
next
  case (Suc k)
  have id: "i < d" and d: "0 < d" using Suc.prems(1) by simp_all
  have nb: "nest d ! Suc (currPos st) = CHR ''{'' \<or> nest d ! Suc (currPos st) = CHR ''}''"
  proof (cases "Suc i < d")
    case True
    then show ?thesis using Suc.prems(2) by (simp add: nest_open)
  next
    case False
    then have "Suc i = d" using id by simp
    then show ?thesis using Suc.prems(2) d by (simp add: nest_close)
  qed
  have "\<exists>st'. parseInlineEmbed (Suc (length (nest d))) pe (parseEmbed k pe (nest d)) (nest d) st
                 = (ABORT StackOverflow, st')"
  proof (rule inline_embed_overflow)
    show "currPos st < length (nest d)" using Suc.prems(2) id by simp
    show "nest d ! currPos st = CHR ''{''" using Suc.prems(2) id by (simp add: nest_open)
    show "nest d ! Suc (currPos st) = CHR ''{'' \<or> nest d ! Suc (currPos st) = CHR ''}''" by (rule nb)
    show "\<And>st1. currPos st1 = Suc (currPos st) \<Longrightarrow>
            \<exists>st2. parseEmbed k pe (nest d) st1 = (ABORT StackOverflow, st2)"
      using Suc.IH [of "Suc i"] Suc.prems by simp
  qed
  then show ?case
    unfolding parseEmbed.simps(2) [of k] by (auto simp add: orElse_def)
qed

lemma nest_overflows:
  fixes pe :: "('x, 's) processEmbed"
  assumes d: "0 < d" and s: "stack \<le> d"
  shows "fst (peg_parse_stack stack pe (nest d) h) = Aborts StackOverflow"
proof -
  let ?input = "nest d"
  let ?st0 = "initial_state h :: 's pstate"
  let ?emb = "parseEmbed stack pe ?input"
  let ?item = "orElse (parseText ?input) ?emb"
  have p0: "currPos ?st0 = 0" by (simp add: initial_state_def)
  have "\<not> (currPos ?st0 < length ?input \<and> peg_c51 (?input ! currPos ?st0))"
    using d p0 by (simp add: nest_open peg_c51_def)
  then have t: "parseText ?input ?st0 = (FAILED :: (string, 'x) res, peg_fail peg_c52 ?st0)"
    by (simp add: parseText_eq run_of_stop)
  from parseEmbed_nest_overflow [of stack 0 d "peg_fail peg_c52 ?st0" pe] s p0
  obtain st1 where e: "?emb (peg_fail peg_c52 ?st0) = (ABORT StackOverflow, st1)" by auto
  have "?item ?st0 = (ABORT StackOverflow, st1)" using t e by (simp add: orElse_def)
  then have "many (Suc (length ?input)) ?item ?st0 [] = (ABORT StackOverflow, st1)"
    by (simp add: many.simps)
  then show ?thesis
    by (simp add: peg_parse_stack_def peg_parse_from_def parseSource_def Let_def)
qed

lemma nest_parses_stack:
  fixes pe :: "('x, 's) processEmbed"
  assumes nt: "never_throws pe" and d: "0 < d" and s: "d < stack"
  shows "\<exists>v. fst (peg_parse_stack stack pe (nest d) h) = Returns v \<and> v \<in> outputs pe"
proof -
  let ?input = "nest d"
  let ?st0 = "initial_state h :: 's pstate"
  let ?emb = "parseEmbed stack pe ?input"
  let ?item = "orElse (parseText ?input) ?emb"
  obtain k where k: "stack = Suc k" using s by (cases stack) simp_all
  have i0: "state_inv ?input ?st0" by (rule state_inv_initial)
  have p0: "currPos ?st0 = 0" by (simp add: initial_state_def)
  have "\<not> (currPos ?st0 < length ?input \<and> peg_c51 (?input ! currPos ?st0))"
    using d p0 by (simp add: nest_open peg_c51_def)
  then have t: "parseText ?input ?st0 = (FAILED :: (string, 'x) res, peg_fail peg_c52 ?st0)"
    by (simp add: parseText_eq run_of_stop)
  have i0': "state_inv ?input (peg_fail peg_c52 ?st0)" using i0 by (rule state_inv_peg_fail)
  from parseEmbed_nest [OF nt d _ s i0'] p0
  obtain v st1 where e: "?emb (peg_fail peg_c52 ?st0) = (OK v, st1)"
    and p1: "currPos st1 = 2 * d" and v: "v \<in> outputs pe"
    by auto
  have item0: "?item ?st0 = (OK v, st1)" using t e by (simp add: orElse_def)
  from source_item_at_end [of ?input st1 k pe] p1
  obtain st2 where item1: "?item st1 = (FAILED, st2)" and p2: "currPos st2 = 2 * d"
    unfolding k by auto
  obtain m where m: "length ?input = Suc m" using d by (cases d) simp_all
  have "many (Suc m) ?item st1 [v] = (OK [v], st2)"
    using item1 by (rule many_stop)
  then have "many (length ?input) ?item st1 [v] = (OK [v], st2)"
    by (simp only: m [symmetric])
  then have "many (Suc (length ?input)) ?item ?st0 [] = (OK [v], st2)"
    using item0 by (intro many_one) simp_all
  then have "fst (peg_parse_stack stack pe ?input h) = Returns v"
    using p2 by (simp add: peg_parse_stack_def peg_parse_from_def parseSource_def Let_def peg_c0_def)
  then show ?thesis using v by blast
qed

text \<open>
  Claim C8, amended. The parser has no maximum nesting depth, explicit or
  configurable, and raises no \<open>SyntaxError\<close> on account of the depth: nested
  directives are parsed by recursion that no test guards, so the one limit is the
  call stack of the JavaScript engine. For every input, the parse under a
  limited stack either ends in the engine's stack overflow (a \<open>RangeError\<close>, not
  a \<open>SyntaxError\<close>) or is the parse under an unlimited stack, which it is
  whenever the stack has room for more nested calls of \<open>peg$parseEmbed\<close> than the
  input has characters. The input of \<open>d\<close> nested directives is parsed to the
  end, and the parse returns the string of the outermost call of
  \<open>processEmbed\<close>, when the stack has room for more than \<open>d\<close> such calls; with
  room for \<open>d\<close> or fewer the parse ends in the stack overflow.
\<close>

theorem nesting_limited_by_stack_only:
  fixes pe :: "('x, 's) processEmbed"
  shows "(fst (peg_parse_stack stack pe input h) = Aborts StackOverflow
          \<or> peg_parse_stack stack pe input h = peg_parse pe input h)
       \<and> (length input < stack \<longrightarrow> peg_parse_stack stack pe input h = peg_parse pe input h)
       \<and> (never_throws pe \<and> 0 < d \<and> d < stack \<longrightarrow>
            (\<exists>v. fst (peg_parse_stack stack pe (nest d) h) = Returns v \<and> v \<in> outputs pe))
       \<and> (0 < d \<and> stack \<le> d \<longrightarrow> fst (peg_parse_stack stack pe (nest d) h) = Aborts StackOverflow)"
  using stack_cases [of stack pe input h] stack_enough [of input stack pe h]
    nest_parses_stack [of pe d stack h] nest_overflows [of d stack pe h]
  by blast

theorem nesting_limited_by_stack_only_witness:
  "fst (peg_parse_stack 4 record_call (nest 3) []) = Returns []
   \<and> fst (peg_parse_stack 3 record_call (nest 3) []) = Aborts StackOverflow
   \<and> peg_parse_stack 7 record_call (nest 3) [] = peg_parse record_call (nest 3) []
   \<and> nest 3 = ''{{{}}}''"
  using nesting_limited_by_stack_only [of 4 record_call "nest 3" "[]" 3]
    nesting_limited_by_stack_only [of 3 record_call "nest 3" "[]" 3]
    nesting_limited_by_stack_only [of 7 record_call "nest 3" "[]" 3]
    never_throws_record_call
  by (simp add: outputs_record_call nest_def numeral_eq_Suc)

text \<open>
  Claim C8, as stated, fails: 65 directives nested in each other, more than the
  maximum of 64 the spec names as an example, are parsed without a
  \<open>SyntaxError\<close> where the stack has room for them (the options of \<open>peg$parse\<close>
  hold no limit to configure), and where the stack has not, the parse ends by
  exhausting the stack, not in a \<open>SyntaxError\<close>.
\<close>

theorem nesting_65_counterexample:
  "fst (peg_parse_stack 66 record_call (nest 65) []) = Returns []
   \<and> fst (peg_parse_stack 65 record_call (nest 65) []) = Aborts StackOverflow
   \<and> length (nest 65) = 130"
  using nest_parses_stack [OF never_throws_record_call, of 65 66 "[]"]
    nest_overflows [of 65 65 record_call "[]"]
  by (simp add: outputs_record_call)

end
